theory Spec2Isabelle
  imports Complex_Main "HOL-Library.Multiset"
begin

section \<open>Strings and characters\<close>

text \<open>
  A JavaScript string is modelled as a HOL \<^typ>\<open>string\<close>; a \<^typ>\<open>char\<close> is read as
  the UTF-16 code unit of the same number, so the model covers texts over
  U+0000..U+00FF. The character classes below are the ones the regular
  expressions of the source use: \<open>\d\<close> is \<open>[0-9]\<close>, \<open>\w\<close> is \<open>[A-Za-z0-9_]\<close>, and
  \<open>\s\<close> (also the set removed by \<open>trim\<close>) is, below U+0100, TAB, LF, VT, FF, CR,
  SPACE and NO-BREAK SPACE.
\<close>

definition digitChars :: string where
  "digitChars = ''0123456789''"

definition lowerAZ :: string where
  "lowerAZ = ''abcdefghijklmnopqrstuvwxyz''"

definition upperAZ :: string where
  "upperAZ = ''ABCDEFGHIJKLMNOPQRSTUVWXYZ''"

definition spaceChars :: string where
  "spaceChars = [CHR 0x09, CHR 0x0A, CHR 0x0B, CHR 0x0C, CHR 0x0D, CHR 0x20, CHR 0xA0]"

definition wordChars :: string where
  "wordChars = lowerAZ @ upperAZ @ digitChars @ ''_''"

text \<open>
  \<open>String.prototype.toLowerCase\<close> on one code unit below U+0100: \<open>A-Z\<close> go to
  \<open>a-z\<close>, the Latin-1 capitals U+00C0..U+00DE (without the multiplication sign
  U+00D7) go to U+00E0..U+00FE, everything else stays.
\<close>

definition upperLatin1 :: string where
  "upperLatin1 =
     [CHR 0xC0, CHR 0xC1, CHR 0xC2, CHR 0xC3, CHR 0xC4, CHR 0xC5, CHR 0xC6, CHR 0xC7,
      CHR 0xC8, CHR 0xC9, CHR 0xCA, CHR 0xCB, CHR 0xCC, CHR 0xCD, CHR 0xCE, CHR 0xCF,
      CHR 0xD0, CHR 0xD1, CHR 0xD2, CHR 0xD3, CHR 0xD4, CHR 0xD5, CHR 0xD6,
      CHR 0xD8, CHR 0xD9, CHR 0xDA, CHR 0xDB, CHR 0xDC, CHR 0xDD, CHR 0xDE]"

definition lowerLatin1 :: string where
  "lowerLatin1 =
     [CHR 0xE0, CHR 0xE1, CHR 0xE2, CHR 0xE3, CHR 0xE4, CHR 0xE5, CHR 0xE6, CHR 0xE7,
      CHR 0xE8, CHR 0xE9, CHR 0xEA, CHR 0xEB, CHR 0xEC, CHR 0xED, CHR 0xEE, CHR 0xEF,
      CHR 0xF0, CHR 0xF1, CHR 0xF2, CHR 0xF3, CHR 0xF4, CHR 0xF5, CHR 0xF6,
      CHR 0xF8, CHR 0xF9, CHR 0xFA, CHR 0xFB, CHR 0xFC, CHR 0xFD, CHR 0xFE]"

definition toLowerChar :: "char \<Rightarrow> char" where
  "toLowerChar c =
     (case map_of (zip (upperAZ @ upperLatin1) (lowerAZ @ lowerLatin1)) c of
        Some l \<Rightarrow> l
      | None \<Rightarrow> c)"

definition toLowerCase :: "string \<Rightarrow> string" where
  "toLowerCase s = map toLowerChar s"

section \<open>Regular expressions\<close>

text \<open>
  The source works on text through regular expressions. They are embedded as
  syntax trees with a backtracking matcher that returns the successful
  continuations in the order in which a backtracking engine tries them
  (greedy repetition, left alternative first), so the first element is the
  match JavaScript reports. A matcher state is the code unit before the
  current position (for \<open>^\<close> and \<open>\b\<close>), the text still to read, and the groups
  captured so far.
\<close>

datatype cls = Digit | Space | OneOf string | NoneOf string | Either cls cls

fun in_cls :: "cls \<Rightarrow> char \<Rightarrow> bool" where
  "in_cls Digit c = (c \<in> set digitChars)"
| "in_cls Space c = (c \<in> set spaceChars)"
| "in_cls (OneOf s) c = (c \<in> set s)"
| "in_cls (NoneOf s) c = (c \<notin> set s)"
| "in_cls (Either k l) c = (in_cls k c \<or> in_cls l c)"

datatype re =
    Eps
  | Sym char
  | SymI char
  | In cls
  | Seq re re
  | Alt re re
  | Star re
  | Grp nat re
  | Bol
  | Eol
  | WordB

type_synonym mstate = "char option \<times> string \<times> (nat \<times> string) list"

definition isWordChar :: "char option \<Rightarrow> bool" where
  "isWordChar p = (case p of None \<Rightarrow> False | Some c \<Rightarrow> c \<in> set wordChars)"

text \<open>
  \<open>SymI c\<close> is a literal of a pattern with the flag \<open>i\<close>: code units are
  compared after \<open>toLowerChar\<close>. (The engine canonicalises with the capital
  instead; two code units below U+0100 have the same canonical form there
  exactly when \<open>toLowerChar\<close> agrees on them.) The flag does not change \<open>\b\<close>.
\<close>

function (sequential) matches :: "re \<Rightarrow> mstate \<Rightarrow> mstate list" where
  "matches Eps st = [st]"
| "matches (Sym c) (p, [], cs) = []"
| "matches (Sym c) (p, d # ds, cs) = (if d = c then [(Some d, ds, cs)] else [])"
| "matches (SymI c) (p, [], cs) = []"
| "matches (SymI c) (p, d # ds, cs) =
     (if toLowerChar d = toLowerChar c then [(Some d, ds, cs)] else [])"
| "matches (In k) (p, [], cs) = []"
| "matches (In k) (p, d # ds, cs) = (if in_cls k d then [(Some d, ds, cs)] else [])"
| "matches (Seq a b) st = concat (map (matches b) (matches a st))"
| "matches (Alt a b) st = matches a st @ matches b st"
| "matches (Star a) (p, s, cs) =
     concat (map (matches (Star a))
                 (filter (\<lambda>(p', s', cs'). length s' < length s) (matches a (p, s, cs))))
     @ [(p, s, cs)]"
| "matches (Grp n a) (p, s, cs) =
     map (\<lambda>(p', s', cs'). (p', s', (n, take (length s - length s') s) # cs'))
         (matches a (p, s, cs))"
| "matches Bol (p, s, cs) = (if p = None then [(p, s, cs)] else [])"
| "matches Eol (p, s, cs) = (if s = [] then [(p, s, cs)] else [])"
| "matches WordB (p, s, cs) =
     (if isWordChar p \<noteq> isWordChar (case s of [] \<Rightarrow> None | d # _ \<Rightarrow> Some d)
      then [(p, s, cs)] else [])"
  by pat_completeness auto
termination
  by (relation "inv_image (less_than <*lex*> less_than)
                  (\<lambda>(r, (p, s, cs)). (size r, length s))") auto

text \<open>Derived forms: \<open>r+\<close>, \<open>r?\<close>, \<open>r{1,2}\<close>, a literal word under flag \<open>i\<close>, and an
  alternation of several branches.\<close>

definition Plus :: "re \<Rightarrow> re" where
  "Plus r = Seq r (Star r)"

definition Opt :: "re \<Rightarrow> re" where
  "Opt r = Alt r Eps"

definition Rep12 :: "re \<Rightarrow> re" where
  "Rep12 r = Seq r (Opt r)"

definition LitI :: "string \<Rightarrow> re" where
  "LitI w = foldr (\<lambda>c r. Seq (SymI c) r) w Eps"

fun Alts :: "re list \<Rightarrow> re" where
  "Alts [] = In (OneOf [])"
| "Alts [r] = r"
| "Alts (r # rs) = Alt r (Alts rs)"

text \<open>
  The match of \<open>r\<close> that starts exactly at the current position, if there is
  one. None of the source's patterns can match the empty string, and a
  match that consumes nothing is not reported here.
\<close>

definition match_here :: "re \<Rightarrow> char option \<Rightarrow> string \<Rightarrow> mstate option" where
  "match_here r p s =
     (case matches r (p, s, []) of
        [] \<Rightarrow> None
      | (p', s', cs') # _ \<Rightarrow> if length s' < length s then Some (p', s', cs') else None)"

text \<open>\<open>RegExp.prototype.exec\<close> without flag \<open>g\<close>: the leftmost match; \<open>test\<close> asks
  whether there is one; \<open>String.prototype.match\<close> gives its first group.\<close>

fun exec_from :: "re \<Rightarrow> char option \<Rightarrow> string \<Rightarrow> mstate option" where
  "exec_from r p [] = match_here r p []"
| "exec_from r p (c # s) =
     (case match_here r p (c # s) of
        Some st \<Rightarrow> Some st
      | None \<Rightarrow> exec_from r (Some c) s)"

definition test :: "re \<Rightarrow> string \<Rightarrow> bool" where
  "test r s = (exec_from r None s \<noteq> None)"

definition match_group :: "re \<Rightarrow> nat \<Rightarrow> string \<Rightarrow> string option" where
  "match_group r n s =
     (case exec_from r None s of
        None \<Rightarrow> None
      | Some (p', s', cs') \<Rightarrow> map_of cs' n)"

text \<open>\<open>s.replace(/r/g, rep)\<close>: every match, left to right, the search resuming
  where the last match ended.\<close>

function replace_from :: "re \<Rightarrow> string \<Rightarrow> char option \<Rightarrow> string \<Rightarrow> string" where
  "replace_from r rep p [] = []"
| "replace_from r rep p (c # s) =
     (case match_here r p (c # s) of
        Some (p', s', cs') \<Rightarrow>
          if length s' < length (c # s) then rep @ replace_from r rep p' s'
          else c # replace_from r rep (Some c) s
      | None \<Rightarrow> c # replace_from r rep (Some c) s)"
  by pat_completeness auto
termination
  by (relation "measure (\<lambda>(r, rep, p, s). length s)") auto

definition replaceAll :: "re \<Rightarrow> string \<Rightarrow> string \<Rightarrow> string" where
  "replaceAll r rep s = replace_from r rep None s"

text \<open>\<open>s.split(/r/)\<close> for a pattern without groups: the pieces between the
  matches; the empty string gives one empty piece.\<close>

function split_from :: "re \<Rightarrow> char option \<Rightarrow> string \<Rightarrow> string \<Rightarrow> string list" where
  "split_from r p cur [] = [rev cur]"
| "split_from r p cur (c # s) =
     (case match_here r p (c # s) of
        Some (p', s', cs') \<Rightarrow>
          if length s' < length (c # s) then rev cur # split_from r p' [] s'
          else split_from r (Some c) (c # cur) s
      | None \<Rightarrow> split_from r (Some c) (c # cur) s)"
  by pat_completeness auto
termination
  by (relation "measure (\<lambda>(r, p, cur, s). length s)") auto

definition split :: "re \<Rightarrow> string \<Rightarrow> string list" where
  "split r s = split_from r None [] s"

definition trim :: "string \<Rightarrow> string" where
  "trim s = rev (dropWhile (in_cls Space) (rev (dropWhile (in_cls Space) s)))"

section \<open>Object literals as lookup tables\<close>

text \<open>
  \<open>SHELF_LIFE_BY_INGREDIENT\<close> and \<open>INGREDIENT_ALIASES\<close> are object literals, read
  with \<open>table[key]\<close>. Such a read finds the literal's own properties and, when
  there is none of that name, the properties every object inherits from
  \<open>Object.prototype\<close>; only then is the result \<open>undefined\<close>. A value read from a
  table is therefore either of the declared type (\<open>Val\<close>) or the inherited
  member of that name (\<open>ProtoMember\<close>: a function, or for \<open>__proto__\<close> the
  prototype object), and \<open>None\<close> stands for \<open>undefined\<close>.
\<close>

datatype 'a jsval = Val 'a | ProtoMember string

definition objectPrototypeNames :: "string list" where
  "objectPrototypeNames =
     [''constructor'', ''hasOwnProperty'', ''isPrototypeOf'', ''propertyIsEnumerable'',
      ''toLocaleString'', ''toString'', ''valueOf'', ''__proto__'',
      ''__defineGetter__'', ''__defineSetter__'', ''__lookupGetter__'', ''__lookupSetter__'']"

definition getProp :: "(string \<times> 'a) list \<Rightarrow> string \<Rightarrow> 'a jsval option" where
  "getProp obj key =
     (case map_of obj key of
        Some v \<Rightarrow> Some (Val v)
      | None \<Rightarrow> if key \<in> set objectPrototypeNames then Some (ProtoMember key) else None)"

text \<open>Truthiness of what a table read returns: a string unless empty, a
  number unless zero, every function and object.\<close>

fun truthyString :: "string jsval \<Rightarrow> bool" where
  "truthyString (Val v) = (v \<noteq> [])"
| "truthyString (ProtoMember k) = True"

fun truthyNumber :: "nat jsval \<Rightarrow> bool" where
  "truthyNumber (Val n) = (n \<noteq> 0)"
| "truthyNumber (ProtoMember k) = True"

text \<open>\<open>String(v)\<close>, as a template literal applies it: a function prints as its
  native source text, the prototype object as \<open>[object Object]\<close>.\<close>

definition toStringVal :: "string jsval \<Rightarrow> string" where
  "toStringVal v =
     (case v of
        Val s \<Rightarrow> s
      | ProtoMember k \<Rightarrow>
          if k = ''__proto__'' then ''[object Object]''
          else ''function '' @ (if k = ''constructor'' then ''Object'' else k)
               @ ''() { [native code] }'')"

section \<open>Canonical names and shelf life (lib/shelfLife.ts)\<close>

definition DEFAULT_SHELF_LIFE_DAYS :: nat where
  "DEFAULT_SHELF_LIFE_DAYS = 7"

definition SHELF_LIFE_BY_INGREDIENT :: "(string \<times> nat) list" where
  "SHELF_LIFE_BY_INGREDIENT =
     [(''apple'', 30), (''banana'', 5), (''beef'', 4), (''bread'', 7), (''broccoli'', 7),
      (''butter'', 30), (''carrot'', 21), (''cheese'', 28), (''chicken'', 2),
      (''cilantro'', 4), (''cucumber'', 7), (''egg'', 21), (''fish'', 2), (''garlic'', 45),
      (''lettuce'', 7), (''milk'', 7), (''onion'', 30), (''potato'', 30), (''spinach'', 5),
      (''tomato'', 10), (''yogurt'', 14)]"

definition INGREDIENT_ALIASES :: "(string \<times> string) list" where
  "INGREDIENT_ALIASES =
     [(''apples'', ''apple''), (''bananas'', ''banana''), (''eggs'', ''egg''),
      (''tomatoes'', ''tomato''), (''potatoes'', ''potato''), (''onions'', ''onion''),
      (''lettuces'', ''lettuce''), (''bnna'', ''banana''), (''orgbnna'', ''banana''),
      (''mlk'', ''milk''), (''chk'', ''chicken''), (''chkn'', ''chicken''),
      (''tom'', ''tomato''), (''yog'', ''yogurt'')]"

text \<open>\<open>Object.keys\<close> of the literal: its keys in the order written.\<close>

definition vocabulary :: "string list" where
  "vocabulary = map fst SHELF_LIFE_BY_INGREDIENT"

text \<open>\<open>normalizeToken\<close>: lower case, then \<^verbatim>\<open>/[^a-z]/g\<close> replaced by nothing.\<close>

definition normalizeToken :: "string \<Rightarrow> string" where
  "normalizeToken v = replaceAll (In (NoneOf lowerAZ)) [] (toLowerCase v)"

text \<open>
  The matrix of \<open>levenshteinDistance\<close> is a list of rows; each \<open>for\<close> loop over a
  fixed range is a \<open>fold\<close> over that range, an assignment \<open>matrix[row][col] = v\<close>
  a list update. Every index the loops use is inside the matrix.
\<close>

definition setCell :: "nat list list \<Rightarrow> nat \<Rightarrow> nat \<Rightarrow> nat \<Rightarrow> nat list list" where
  "setCell matrix row col v = matrix[row := (matrix ! row)[col := v]]"

definition levenshteinDistance :: "string \<Rightarrow> string \<Rightarrow> nat" where
  "levenshteinDistance a b =
     (let rows = length a + 1;
          cols = length b + 1;
          matrix0 = replicate rows (replicate cols 0);
          matrix1 = fold (\<lambda>row matrix. setCell matrix row 0 row) [0..<rows] matrix0;
          matrix2 = fold (\<lambda>col matrix. setCell matrix 0 col col) [0..<cols] matrix1;
          matrix3 =
            fold (\<lambda>row matrix.
                    fold (\<lambda>col matrix.
                            let cost = (if a ! (row - 1) = b ! (col - 1) then 0 else 1)
                            in setCell matrix row col
                                 (min (min (matrix ! (row - 1) ! col + 1)
                                           (matrix ! row ! (col - 1) + 1))
                                      (matrix ! (row - 1) ! (col - 1) + cost)))
                         [1..<cols] matrix)
                 [1..<rows] matrix2
      in matrix3 ! (rows - 1) ! (cols - 1))"

text \<open>
  \<open>Number(x.toFixed(2))\<close>: the multiple of 1/100 nearest to \<open>x\<close>, the larger one
  at a tie. Confidence and similarity are exact rationals here. The source
  computes them in binary floating point; the quotients \<open>1 - d / m\<close> that pass
  the test against 0.55 have \<open>m \<le> 14\<close> (the longest vocabulary entry has 8
  letters), where the floating-point value rounds and compares as the exact
  one does.
\<close>

definition toFixed2 :: "rat \<Rightarrow> rat" where
  "toFixed2 x = of_int \<lfloor>100 * x + 1 / 2\<rfloor> / 100"

text \<open>
  One round of the loop over the vocabulary. \<open>bestDistance\<close> starts as
  \<open>Number.POSITIVE_INFINITY\<close>, which is \<open>None\<close> here; every number is below it.
\<close>

definition bestStep :: "string \<Rightarrow> string \<Rightarrow> string \<times> nat option \<Rightarrow> string \<times> nat option" where
  "bestStep normalized key best =
     (let distance = levenshteinDistance normalized key
      in if (case snd best of None \<Rightarrow> True | Some bestDistance \<Rightarrow> distance < bestDistance)
         then (key, Some distance)
         else best)"

text \<open>The result object \<open>{ canonicalName, confidence }\<close> is a pair. The
  function is split where the source has its early returns: the fuzzy
  fallback (from \<open>let bestMatch\<close> on), the vocabulary test before it, and the
  whole.\<close>

definition fuzzyFallback :: "string \<Rightarrow> string jsval \<times> rat" where
  "fuzzyFallback normalized =
     (let (bestMatch, bestDistance) = fold (bestStep normalized) vocabulary (''unknown'', None);
          maxLength = max (length bestMatch) (length normalized)
      in case (if maxLength = 0 then Some 0
               else map_option (\<lambda>d. 1 - of_nat d / of_nat maxLength) bestDistance) of
           None \<Rightarrow> (Val normalized, 1 / 2)
         | Some similarity \<Rightarrow>
             if 55 / 100 \<le> similarity then (Val bestMatch, toFixed2 similarity)
             else (Val normalized, 1 / 2))"

definition vocabularyOrFuzzy :: "string \<Rightarrow> string jsval \<times> rat" where
  "vocabularyOrFuzzy normalized =
     (case getProp SHELF_LIFE_BY_INGREDIENT normalized of
        Some v \<Rightarrow> if truthyNumber v then (Val normalized, 1) else fuzzyFallback normalized
      | None \<Rightarrow> fuzzyFallback normalized)"

definition canonicalizeIngredient :: "string \<Rightarrow> string jsval \<times> rat" where
  "canonicalizeIngredient rawName =
     (let normalized = normalizeToken rawName in
      if normalized = [] then (Val ''unknown'', 0)
      else case getProp INGREDIENT_ALIASES normalized of
             Some aliasMatch \<Rightarrow>
               if truthyString aliasMatch then (aliasMatch, 95 / 100)
               else vocabularyOrFuzzy normalized
           | None \<Rightarrow> vocabularyOrFuzzy normalized)"

definition getShelfLifeDays :: "string \<Rightarrow> nat jsval" where
  "getShelfLifeDays name =
     (case getProp SHELF_LIFE_BY_INGREDIENT name of
        Some v \<Rightarrow> v
      | None \<Rightarrow> Val DEFAULT_SHELF_LIFE_DAYS)"

section \<open>Receipt parsing (lib/receiptParser.ts)\<close>

record ParsedReceiptItem =
  rawLine :: string
  canonicalName :: "string jsval"
  displayName :: "string jsval"
  quantity :: nat
  unit :: string
  confidence :: rat

text \<open>
  The reject patterns, in the order of the source: fourteen words under flag
  \<open>i\<close>, then \<^verbatim>\<open>/^\d{1,2}[/:]\d{1,2}/\<close> and \<^verbatim>\<open>/^[\d\s.,$-]+$/\<close>.
\<close>

definition IGNORED_LINE_PATTERNS :: "re list" where
  "IGNORED_LINE_PATTERNS =
     [LitI ''subtotal'', LitI ''total'', LitI ''tax'', LitI ''change'', LitI ''cash'',
      LitI ''visa'', LitI ''mastercard'', LitI ''debit'', LitI ''credit'', LitI ''thank'',
      LitI ''store'', LitI ''receipt'', LitI ''date'', LitI ''time'',
      Seq Bol (Seq (Rep12 (In Digit)) (Seq (In (OneOf ''/:'')) (Rep12 (In Digit)))),
      Seq Bol (Seq (Plus (In (Either Digit (Either Space (OneOf ''.,$-''))))) Eol)]"

text \<open>
  \<open>cleanLine\<close> applies four replacements and \<open>trim\<close>; innermost first:
  \<^verbatim>\<open>/\s+/g\<close> by one space, then \<^verbatim>\<open>/\d+[xX]\s*/g\<close>, \<^verbatim>\<open>/\$\s*\d+[\d.,]*/g\<close> and
  \<^verbatim>\<open>/\b\d+[\d.,]*\b/g\<close> by nothing.
\<close>

definition cleanLine :: "string \<Rightarrow> string" where
  "cleanLine line =
     trim
       (replaceAll (Seq WordB (Seq (Plus (In Digit))
                      (Seq (Star (In (Either Digit (OneOf ''.,'')))) WordB))) []
          (replaceAll (Seq (Sym CHR ''$'') (Seq (Star (In Space)) (Seq (Plus (In Digit))
                         (Star (In (Either Digit (OneOf ''.,''))))))) []
             (replaceAll (Seq (Plus (In Digit)) (Seq (In (OneOf ''xX'')) (Star (In Space)))) []
                (replaceAll (Plus (In Space)) '' '' line))))"

text \<open>
  \<open>inferUnit\<close> tests \<^verbatim>\<open>/\b(lb|lbs|pound|oz)\b/i\<close>, \<^verbatim>\<open>/\b(kg|g)\b/i\<close> and
  \<^verbatim>\<open>/\b(l|liter|litre|ml)\b/i\<close> in this order; \<open>inferQuantity\<close> matches
  \<^verbatim>\<open>/(\d+)\s*[xX]/\<close> and reads its first group.
\<close>

definition inferUnit :: "string \<Rightarrow> string" where
  "inferUnit line =
     (if test (Seq WordB (Seq (Grp 1 (Alts [LitI ''lb'', LitI ''lbs'', LitI ''pound'', LitI ''oz'']))
                  WordB)) line then ''lb''
      else if test (Seq WordB (Seq (Grp 1 (Alts [LitI ''kg'', LitI ''g''])) WordB)) line then ''kg''
      else if test (Seq WordB (Seq (Grp 1 (Alts [LitI ''l'', LitI ''liter'', LitI ''litre'', LitI ''ml'']))
                  WordB)) line then ''l''
      else ''item'')"

text \<open>\<open>Number(ds)\<close> for a string of decimal digits. A quantity is a natural
  number here; the source's floating-point number is the same below \<open>2^53\<close>.\<close>

definition digitValue :: "char \<Rightarrow> nat" where
  "digitValue c = (case map_of (zip digitChars [0..<10]) c of Some n \<Rightarrow> n | None \<Rightarrow> 0)"

definition Number :: "string \<Rightarrow> nat" where
  "Number ds = foldl (\<lambda>n c. 10 * n + digitValue c) 0 ds"

definition inferQuantity :: "string \<Rightarrow> nat" where
  "inferQuantity line =
     (case match_group (Seq (Grp 1 (Plus (In Digit))) (Seq (Star (In Space)) (In (OneOf ''xX''))))
             1 line of
        Some multiplier \<Rightarrow> Number multiplier
      | None \<Rightarrow> 1)"

text \<open>The body of the first loop: \<open>None\<close> is a \<open>continue\<close>, \<open>Some item\<close> the
  item pushed for the line.\<close>

definition parseLine :: "string \<Rightarrow> ParsedReceiptItem option" where
  "parseLine line =
     (if list_ex (\<lambda>pattern. test pattern line) IGNORED_LINE_PATTERNS then None
      else let cleaned = cleanLine line in
      if cleaned = [] \<or> length cleaned < 3 then None
      else let (name, conf) = canonicalizeIngredient cleaned in
      if name = Val ''unknown'' then None
      else Some \<lparr> rawLine = line, canonicalName = name, displayName = name,
                  quantity = inferQuantity line, unit = inferUnit line, confidence = conf \<rparr>)"

text \<open>
  A JavaScript \<open>Map\<close> keeps its keys in the order of their first insertion;
  \<open>set\<close> on a key already there replaces the value in place. It is an
  association list.
\<close>

fun map_set :: "(string \<times> 'v) list \<Rightarrow> string \<Rightarrow> 'v \<Rightarrow> (string \<times> 'v) list" where
  "map_set [] k v = [(k, v)]"
| "map_set ((k', v') # m) k v = (if k' = k then (k, v) # m else (k', v') # map_set m k v)"

definition itemKey :: "ParsedReceiptItem \<Rightarrow> string" where
  "itemKey item = toStringVal (canonicalName item) @ '':'' @ unit item"

definition dedupStep :: "ParsedReceiptItem \<Rightarrow> (string \<times> ParsedReceiptItem) list
                           \<Rightarrow> (string \<times> ParsedReceiptItem) list" where
  "dedupStep item deduped =
     (let key = itemKey item in
      case map_of deduped key of
        None \<Rightarrow> map_set deduped key item
      | Some existing \<Rightarrow>
          map_set deduped key
            (existing\<lparr> quantity := quantity existing + quantity item,
                       confidence := max (confidence existing) (confidence item) \<rparr>))"

definition dedupe :: "ParsedReceiptItem list \<Rightarrow> ParsedReceiptItem list" where
  "dedupe parsed = map snd (fold dedupStep parsed [])"

text \<open>The lines of the text: split at \<^verbatim>\<open>/\r?\n/\<close>, trimmed, the empty ones
  dropped.\<close>

definition receiptLines :: "string \<Rightarrow> string list" where
  "receiptLines rawText =
     filter (\<lambda>line. line \<noteq> [])
       (map trim (split (Seq (Opt (Sym (CHR 0x0D))) (Sym (CHR 0x0A))) rawText))"

definition parseLines :: "string list \<Rightarrow> ParsedReceiptItem list" where
  "parseLines lines =
     fold (\<lambda>line parsed. case parseLine line of None \<Rightarrow> parsed | Some item \<Rightarrow> parsed @ [item])
          lines []"

definition parseReceiptText :: "string \<Rightarrow> ParsedReceiptItem list" where
  "parseReceiptText rawText = dedupe (parseLines (receiptLines rawText))"

section \<open>Dates, expiration and urgency (lib/shelfLife.ts)\<close>

text \<open>
  A \<open>Date\<close> holds a time value: the milliseconds since the epoch, at most
  \<open>8.64e15\<close> in absolute value, or \<open>NaN\<close> (an invalid date), which is \<open>None\<close>
  here. A string handed to \<open>new Date\<close> is modelled by what matters of it: it is
  empty, or it does not parse, or it parses to an instant (a form without a
  zone designator being read in the zone of the run). The ISO string that
  \<open>toISOString\<close> returns is modelled by the instant it denotes; on an invalid
  date \<open>toISOString\<close> throws a \<open>RangeError\<close>.
\<close>

datatype error = RangeError | TypeError

datatype dateText = EmptyText | BadText | DateText int

definition msPerDay :: int where
  "msPerDay = 1000 * 60 * 60 * 24"

definition maxTime :: int where
  "maxTime = 8640000000000000"

definition TimeClip :: "int \<Rightarrow> int option" where
  "TimeClip t = (if \<bar>t\<bar> \<le> maxTime then Some t else None)"

fun newDate :: "dateText \<Rightarrow> int option" where
  "newDate EmptyText = None"
| "newDate BadText = None"
| "newDate (DateText t) = TimeClip t"

definition toISOString :: "int option \<Rightarrow> error + int" where
  "toISOString d = (case d of None \<Rightarrow> Inl RangeError | Some t \<Rightarrow> Inr t)"

text \<open>
  \<open>getDate\<close> and \<open>setDate\<close> work in local time. The time zone is a parameter:
  the offset of local time at a UTC instant, and the offset that applies at a
  local time value. \<open>d.setDate(d.getDate() + n)\<close> takes the local time
  \<open>t + offset\<close>, moves it by \<open>n\<close> whole days (the day number grows by \<open>n\<close>, the
  time within the day stays), goes back to UTC and clips. When \<open>n\<close> is not a
  number, \<open>d.getDate() + n\<close> is a string that is no numeral, and the date
  becomes invalid; an invalid date stays invalid.
\<close>

record timezone =
  offsetAtUTC :: "int \<Rightarrow> int"
  offsetAtLocal :: "int \<Rightarrow> int"

definition addLocalDays :: "timezone \<Rightarrow> int option \<Rightarrow> nat jsval \<Rightarrow> int option" where
  "addLocalDays z d n =
     (case d of
        None \<Rightarrow> None
      | Some t \<Rightarrow>
          (case n of
             ProtoMember k \<Rightarrow> None
           | Val days \<Rightarrow>
               let localTime = t + offsetAtUTC z t;
                   newLocal = localTime + int days * msPerDay
               in TimeClip (newLocal - offsetAtLocal z newLocal)))"

text \<open>The parameter \<open>overrideExpirationDate\<close> is optional: \<open>None\<close> is \<open>undefined\<close>.
  The test \<open>if (overrideExpirationDate)\<close> holds for a string that is not empty.\<close>

definition expirationDateForItem ::
    "timezone \<Rightarrow> string \<Rightarrow> dateText \<Rightarrow> dateText option \<Rightarrow> error + int" where
  "expirationDateForItem z name purchaseDate override =
     (case override of
        Some ov \<Rightarrow>
          if ov \<noteq> EmptyText then toISOString (newDate ov)
          else toISOString (addLocalDays z (newDate purchaseDate) (getShelfLifeDays name))
      | None \<Rightarrow>
          toISOString (addLocalDays z (newDate purchaseDate) (getShelfLifeDays name)))"

text \<open>
  A JavaScript number that may be \<open>NaN\<close> is an \<open>int option\<close>, \<open>None\<close> for \<open>NaN\<close>.
  Arithmetic with \<open>NaN\<close> gives \<open>NaN\<close>, every comparison with \<open>NaN\<close> is false, and
  \<open>NaN\<close> and 0 are the falsy numbers.
\<close>

type_synonym number = "int option"

definition numSub :: "number \<Rightarrow> number \<Rightarrow> number" where
  "numSub x y = (case x of None \<Rightarrow> None | Some a \<Rightarrow> (case y of None \<Rightarrow> None | Some b \<Rightarrow> Some (a - b)))"

definition numLess :: "number \<Rightarrow> number \<Rightarrow> bool" where
  "numLess x y = (case x of None \<Rightarrow> False | Some a \<Rightarrow> (case y of None \<Rightarrow> False | Some b \<Rightarrow> a < b))"

definition numLessEq :: "number \<Rightarrow> number \<Rightarrow> bool" where
  "numLessEq x y = (case x of None \<Rightarrow> False | Some a \<Rightarrow> (case y of None \<Rightarrow> False | Some b \<Rightarrow> a \<le> b))"

definition numEq :: "number \<Rightarrow> number \<Rightarrow> bool" where
  "numEq x y = (case x of None \<Rightarrow> False | Some a \<Rightarrow> (case y of None \<Rightarrow> False | Some b \<Rightarrow> a = b))"

definition isTruthy :: "number \<Rightarrow> bool" where
  "isTruthy x = (case x of None \<Rightarrow> False | Some a \<Rightarrow> a \<noteq> 0)"

text \<open>
  \<open>Date.now()\<close> reads the wall clock. The clock is the sequence of its
  readings; a computation passes on how many readings it has taken.
  \<open>new Date(dateIso).getTime()\<close> is \<open>NaN\<close> for a string that does not parse, and
  so are then the days and the urgency score. \<open>Math.ceil\<close> of the quotient is
  computed on integers (the source divides in floating point, which agrees
  while the quotient is below \<open>2^26\<close> days).
\<close>

type_synonym clock = "nat \<Rightarrow> int"

definition ceilDays :: "int \<Rightarrow> int" where
  "ceilDays ms = - ((- ms) div msPerDay)"

definition daysUntil :: "clock \<Rightarrow> nat \<Rightarrow> dateText \<Rightarrow> number \<times> nat" where
  "daysUntil clk k dateIso =
     (let now = clk k;
          target = newDate dateIso
      in (case target of None \<Rightarrow> None | Some t \<Rightarrow> Some (ceilDays (t - now)), Suc k))"

definition urgencyScore :: "number \<Rightarrow> number" where
  "urgencyScore remaining = (case remaining of None \<Rightarrow> None | Some d \<Rightarrow> Some (max 0 (7 - d)))"

section \<open>Ranking (lib/recipeFallback.ts)\<close>

text \<open>
  The fields of an inventory item that the ranking reads. Its expiration
  dates are strings; \<open>overrideExpirationDate\<close> may be absent (\<open>None\<close>), and
  \<open>??\<close> takes it whenever it is present, also when it is the empty string.
\<close>

record InventoryItem =
  itemCanonicalName :: string
  itemDisplayName :: string
  computedExpirationDate :: dateText
  overrideExpirationDate :: "dateText option"

record RankedIngredient =
  rankedCanonicalName :: string
  rankedDisplayName :: string
  daysUntilExpiration :: number
  rankedUrgencyScore :: number

text \<open>The callback of \<open>pantry.map\<close>, run on the items in order; each call of
  \<open>daysUntil\<close> takes the next reading of the clock.\<close>

fun rankItems :: "clock \<Rightarrow> nat \<Rightarrow> InventoryItem list \<Rightarrow> RankedIngredient list" where
  "rankItems clk k [] = []"
| "rankItems clk k (item # pantry) =
     (let effectiveExpiration =
            (case overrideExpirationDate item of
               Some ov \<Rightarrow> ov
             | None \<Rightarrow> computedExpirationDate item);
          (remaining, k') = daysUntil clk k effectiveExpiration
      in \<lparr> rankedCanonicalName = itemCanonicalName item,
            rankedDisplayName = itemDisplayName item,
            daysUntilExpiration = remaining,
            rankedUrgencyScore = urgencyScore remaining \<rparr>
         # rankItems clk k' pantry)"

text \<open>The comparator \<open>b.urgencyScore - a.urgencyScore || a.daysUntilExpiration -
  b.daysUntilExpiration\<close>: the second difference when the first is 0 or \<open>NaN\<close>.\<close>

definition compareRanked :: "RankedIngredient \<Rightarrow> RankedIngredient \<Rightarrow> number" where
  "compareRanked a b =
     (let byUrgency = numSub (rankedUrgencyScore b) (rankedUrgencyScore a)
      in if isTruthy byUrgency then byUrgency
         else numSub (daysUntilExpiration a) (daysUntilExpiration b))"

text \<open>
  \<open>Array.prototype.sort\<close> is stable and reads a \<open>NaN\<close> from the comparator as 0
  (\<open>SortCompare\<close>). On entries that hold numbers \<open>compareRanked\<close> is a consistent
  comparison, so the result is the one stable sorted arrangement; insertion
  from the right computes it. Where an entry holds \<open>NaN\<close> the comparison is not
  consistent and the standard leaves the order to the implementation; the
  model inserts from the right there too.
\<close>

definition SortCompare :: "('a \<Rightarrow> 'a \<Rightarrow> number) \<Rightarrow> 'a \<Rightarrow> 'a \<Rightarrow> int" where
  "SortCompare cmp x y = (case cmp x y of None \<Rightarrow> 0 | Some v \<Rightarrow> v)"

fun insertBy :: "('a \<Rightarrow> 'a \<Rightarrow> number) \<Rightarrow> 'a \<Rightarrow> 'a list \<Rightarrow> 'a list" where
  "insertBy cmp x [] = [x]"
| "insertBy cmp x (y # ys) =
     (if SortCompare cmp x y \<le> 0 then x # y # ys else y # insertBy cmp x ys)"

definition sortBy :: "('a \<Rightarrow> 'a \<Rightarrow> number) \<Rightarrow> 'a list \<Rightarrow> 'a list" where
  "sortBy cmp xs = foldr (insertBy cmp) xs []"

definition rankExpiringIngredients :: "clock \<Rightarrow> nat \<Rightarrow> InventoryItem list \<Rightarrow> RankedIngredient list" where
  "rankExpiringIngredients clk k pantry = sortBy compareRanked (rankItems clk k pantry)"

section \<open>Reference notions for the ranking\<close>

text \<open>The expiration a ranking uses for an item; the days left to a date at
  one given instant, \<open>ceil((expiration - now) / 1 day)\<close>, which is \<open>NaN\<close> for a
  date that does not parse; the entry an item gets when it is evaluated at
  one given instant; the ranking of a whole list at one instant; and the
  order the ranking is meant to have: higher urgency first, and among equal
  urgency fewer days first.\<close>

definition effectiveExpiration :: "InventoryItem \<Rightarrow> dateText" where
  "effectiveExpiration item =
     (case overrideExpirationDate item of Some ov \<Rightarrow> ov | None \<Rightarrow> computedExpirationDate item)"

definition daysAt :: "int \<Rightarrow> dateText \<Rightarrow> number" where
  "daysAt now dateIso = (case newDate dateIso of None \<Rightarrow> None | Some t \<Rightarrow> Some (ceilDays (t - now)))"

definition rankedAt :: "int \<Rightarrow> InventoryItem \<Rightarrow> RankedIngredient" where
  "rankedAt now item =
     \<lparr> rankedCanonicalName = itemCanonicalName item,
       rankedDisplayName = itemDisplayName item,
       daysUntilExpiration = daysAt now (effectiveExpiration item),
       rankedUrgencyScore = urgencyScore (daysAt now (effectiveExpiration item)) \<rparr>"


definition rankedBefore :: "RankedIngredient \<Rightarrow> RankedIngredient \<Rightarrow> bool" where
  "rankedBefore a b \<longleftrightarrow>
     numLess (rankedUrgencyScore b) (rankedUrgencyScore a)
     \<or> (numEq (rankedUrgencyScore b) (rankedUrgencyScore a)
        \<and> numLessEq (daysUntilExpiration a) (daysUntilExpiration b))"

text \<open>An entry whose days and urgency are numbers.\<close>

definition numericEntry :: "RankedIngredient \<Rightarrow> bool" where
  "numericEntry r \<longleftrightarrow> daysUntilExpiration r \<noteq> None \<and> rankedUrgencyScore r \<noteq> None"

text \<open>Sample inputs: four items that are -1, 0, 10 and 3 days from expiring
  at the epoch; a clock that stands at the epoch; two items expiring at the
  end of the first day, and a clock whose first reading is one millisecond
  before that instant and whose later readings are that instant; three items
  of which the second has an expiration date that does not parse.\<close>

definition samplePantry :: "InventoryItem list" where
  "samplePantry =
     [\<lparr> itemCanonicalName = ''milk'', itemDisplayName = ''Milk'',
         computedExpirationDate = DateText (- 86400000), overrideExpirationDate = None \<rparr>,
      \<lparr> itemCanonicalName = ''fish'', itemDisplayName = ''Fish'',
         computedExpirationDate = DateText 999, overrideExpirationDate = Some (DateText 0) \<rparr>,
      \<lparr> itemCanonicalName = ''garlic'', itemDisplayName = ''Garlic'',
         computedExpirationDate = DateText 864000000, overrideExpirationDate = None \<rparr>,
      \<lparr> itemCanonicalName = ''egg'', itemDisplayName = ''Eggs'',
         computedExpirationDate = DateText 259200000, overrideExpirationDate = None \<rparr>]"

definition epochClock :: clock where
  "epochClock n = 0"



definition unparseablePantry :: "InventoryItem list" where
  "unparseablePantry =
     [\<lparr> itemCanonicalName = ''garlic'', itemDisplayName = ''Garlic'',
         computedExpirationDate = DateText 864000000, overrideExpirationDate = None \<rparr>,
      \<lparr> itemCanonicalName = ''egg'', itemDisplayName = ''Eggs'',
         computedExpirationDate = BadText, overrideExpirationDate = None \<rparr>,
      \<lparr> itemCanonicalName = ''milk'', itemDisplayName = ''Milk'',
         computedExpirationDate = DateText (- 86400000), overrideExpirationDate = None \<rparr>]"

definition utcZone :: timezone where
  "utcZone = \<lparr> offsetAtUTC = (\<lambda>t. 0), offsetAtLocal = (\<lambda>t. 0) \<rparr>"

section \<open>Reference notions for canonical names\<close>

text \<open>
  \<open>canonicalizeIngredient\<close> applied to what an earlier call returned as
  \<open>canonicalName\<close>. A value that is not a string has no method \<open>toLowerCase\<close>,
  and \<open>normalizeToken\<close> throws a \<open>TypeError\<close>.
\<close>

definition canonicalizeIngredientValue :: "string jsval \<Rightarrow> error + string jsval \<times> rat" where
  "canonicalizeIngredientValue v =
     (case v of
        Val s \<Rightarrow> Inr (canonicalizeIngredient s)
      | ProtoMember k \<Rightarrow> Inl TypeError)"

text \<open>\<open>i\<close> is the first position of \<open>ks\<close> at which \<open>f\<close> is least.\<close>

definition firstMinimum :: "('a \<Rightarrow> nat) \<Rightarrow> 'a list \<Rightarrow> nat \<Rightarrow> bool" where
  "firstMinimum f ks i \<longleftrightarrow>
     i < length ks \<and> (\<forall>j<length ks. f (ks ! i) \<le> f (ks ! j)) \<and> (\<forall>j<i. f (ks ! i) < f (ks ! j))"

section \<open>Reference notions for deduplication\<close>

text \<open>
  The (canonical name, unit) pair of an item; the items of a list that fall
  under a key; the entry that stands for a non-empty group of merged lines:
  its first member, with the quantities summed and the largest confidence.
\<close>

definition pairOf :: "ParsedReceiptItem \<Rightarrow> string jsval \<times> string" where
  "pairOf item = (canonicalName item, unit item)"

definition keyGroup :: "string \<Rightarrow> ParsedReceiptItem list \<Rightarrow> ParsedReceiptItem list" where
  "keyGroup k parsed = filter (\<lambda>p. itemKey p = k) parsed"

definition mergedItem :: "ParsedReceiptItem list \<Rightarrow> ParsedReceiptItem" where
  "mergedItem g =
     (hd g)\<lparr> quantity := sum_list (map quantity g),
             confidence := Max (set (map confidence g)) \<rparr>"

definition samePair :: "ParsedReceiptItem \<Rightarrow> ParsedReceiptItem \<Rightarrow> bool" where
  "samePair a b \<longleftrightarrow> canonicalName a = canonicalName b \<and> unit a = unit b"

text \<open>A name as \<open>canonicalizeIngredient\<close> returns it: a string of letters, or
  the inherited member \<open>constructor\<close>.\<close>

definition resolvedName :: "string jsval \<Rightarrow> bool" where
  "resolvedName v \<longleftrightarrow> (\<exists>s. v = Val s \<and> set s \<subseteq> set lowerAZ) \<or> v = ProtoMember ''constructor''"

text \<open>A sample receipt, the items its lines parse to, and the entry expected
  for its two banana lines.\<close>

definition receiptSample :: string where
  "receiptSample = ''2x Bnna $1.99'' @ [CHR 0x0A] @ ''milk'' @ [CHR 0x0D, CHR 0x0A] @ ''3x bananas''
                   @ [CHR 0x0A] @ ''milk 2 l''"

definition receiptSampleLines :: "ParsedReceiptItem list" where
  "receiptSampleLines =
     [\<lparr> rawLine = ''2x Bnna $1.99'', canonicalName = Val ''banana'', displayName = Val ''banana'',
         quantity = 2, unit = ''item'', confidence = 95 / 100 \<rparr>,
      \<lparr> rawLine = ''milk'', canonicalName = Val ''milk'', displayName = Val ''milk'',
         quantity = 1, unit = ''item'', confidence = 1 \<rparr>,
      \<lparr> rawLine = ''3x bananas'', canonicalName = Val ''banana'', displayName = Val ''banana'',
         quantity = 3, unit = ''item'', confidence = 95 / 100 \<rparr>,
      \<lparr> rawLine = ''milk 2 l'', canonicalName = Val ''milk'', displayName = Val ''milk'',
         quantity = 1, unit = ''l'', confidence = 80 / 100 \<rparr>]"

definition bananaEntry :: ParsedReceiptItem where
  "bananaEntry = \<lparr> rawLine = ''2x Bnna $1.99'', canonicalName = Val ''banana'',
                    displayName = Val ''banana'', quantity = 5, unit = ''item'',
                    confidence = 95 / 100 \<rparr>"

section \<open>Reference notions for the edit distance\<close>

text \<open>
  Edit scripts. \<open>edits xs ys n\<close>: \<open>ys\<close> is obtained from \<open>xs\<close> by a script that
  goes through \<open>xs\<close> from the left and keeps a character (cost 0), substitutes
  one for it, deletes it, or inserts one (cost 1 each), at total cost \<open>n\<close>.
  The edit distance is the least cost of a script.
\<close>

inductive edits :: "'a list \<Rightarrow> 'a list \<Rightarrow> nat \<Rightarrow> bool" where
  finish: "edits [] [] 0"
| keep: "edits xs ys n \<Longrightarrow> edits (x # xs) (x # ys) n"
| substitute: "edits xs ys n \<Longrightarrow> edits (x # xs) (y # ys) (Suc n)"
| delete: "edits xs ys n \<Longrightarrow> edits (x # xs) ys (Suc n)"
| insert: "edits xs ys n \<Longrightarrow> edits xs (y # ys) (Suc n)"

definition editDistance :: "'a list \<Rightarrow> 'a list \<Rightarrow> nat \<Rightarrow> bool" where
  "editDistance xs ys d \<longleftrightarrow> edits xs ys d \<and> (\<forall>n. edits xs ys n \<longrightarrow> d \<le> n)"

text \<open>The same scripts read from the right end.\<close>

inductive editsFromRight :: "'a list \<Rightarrow> 'a list \<Rightarrow> nat \<Rightarrow> bool" where
  finishR: "editsFromRight [] [] 0"
| keepR: "editsFromRight xs ys n \<Longrightarrow> editsFromRight (xs @ [x]) (ys @ [x]) n"
| substituteR: "editsFromRight xs ys n \<Longrightarrow> editsFromRight (xs @ [x]) (ys @ [y]) (Suc n)"
| deleteR: "editsFromRight xs ys n \<Longrightarrow> editsFromRight (xs @ [x]) ys (Suc n)"
| insertR: "editsFromRight xs ys n \<Longrightarrow> editsFromRight xs (ys @ [y]) (Suc n)"

text \<open>The value the matrix of \<open>levenshteinDistance\<close> gets at row \<open>i\<close>, column \<open>j\<close>.\<close>

fun cellValue :: "'a list \<Rightarrow> 'a list \<Rightarrow> nat \<Rightarrow> nat \<Rightarrow> nat" where
  "cellValue a b 0 j = j"
| "cellValue a b (Suc i) 0 = Suc i"
| "cellValue a b (Suc i) (Suc j) =
     min (min (cellValue a b i (Suc j) + 1) (cellValue a b (Suc i) j + 1))
         (cellValue a b i j + (if a ! i = b ! j then 0 else 1))"

text \<open>The matrix has the shape of \<open>rows\<close> by \<open>cols\<close>; its cells before position
  (\<open>r\<close>, \<open>c\<close>) in row order, and its first row and column, hold their values.\<close>

definition matrixShape :: "nat \<Rightarrow> nat \<Rightarrow> nat list list \<Rightarrow> bool" where
  "matrixShape rows cols m \<longleftrightarrow> length m = rows \<and> (\<forall>i<rows. length (m ! i) = cols)"

definition filledUpTo :: "string \<Rightarrow> string \<Rightarrow> nat \<Rightarrow> nat \<Rightarrow> nat list list \<Rightarrow> bool" where
  "filledUpTo a b r c m \<longleftrightarrow>
     matrixShape (length a + 1) (length b + 1) m
     \<and> (\<forall>i\<le>length a. \<forall>j\<le>length b.
           (i < r \<or> (i = r \<and> j < c) \<or> i = 0 \<or> j = 0) \<longrightarrow> m ! i ! j = cellValue a b i j)"

section \<open>Receipt scenarios\<close>

text \<open>
  C5. For the raw text \<open>2x Bnna $1.99\<close>, \<open>TOTAL $1.99\<close>, \<open>VISA ****1234\<close> (three
  lines), \<open>parseReceiptText\<close> drops the second and the third line, which the
  reject filter matches, and returns a single item: canonical name \<open>banana\<close>
  (through the alias \<open>bnna\<close>), quantity 2, unit \<open>item\<close>, confidence 0.95.
\<close>

theorem parseReceiptText_banana_scenario:
  "parseReceiptText (''2x Bnna $1.99'' @ [CHR 0x0A] @ ''TOTAL $1.99'' @ [CHR 0x0A] @ ''VISA ****1234'')
     = [\<lparr> rawLine = ''2x Bnna $1.99'', canonicalName = Val ''banana'',
           displayName = Val ''banana'', quantity = 2, unit = ''item'',
           confidence = 95 / 100 \<rparr>]
   \<and> parseLine ''2x Bnna $1.99'' \<noteq> None
   \<and> list_ex (\<lambda>pattern. test pattern ''TOTAL $1.99'') IGNORED_LINE_PATTERNS
   \<and> list_ex (\<lambda>pattern. test pattern ''VISA ****1234'') IGNORED_LINE_PATTERNS
   \<and> normalizeToken (cleanLine ''2x Bnna $1.99'') = ''bnna''
   \<and> getProp INGREDIENT_ALIASES ''bnna'' = Some (Val ''banana'')"
  by code_simp

text \<open>
  C1, as stated: the two lines \<open>milk 1\<close> and \<open>milk 2\<close> give one entry of quantity
  3. They do not: \<open>inferQuantity\<close> reads a quantity only from digits followed by
  \<open>x\<close> or \<open>X\<close>, so each of these lines counts 1 and the merged entry has
  quantity 2.
\<close>

theorem parseReceiptText_milk_counterexample:
  "map quantity (parseReceiptText (''milk 1'' @ [CHR 0x0A] @ ''milk 2'')) \<noteq> [3]"
  by code_simp

text \<open>
  C1, amended: for the lines \<open>milk 1\<close> and \<open>milk 2\<close>, in either order,
  \<open>parseReceiptText\<close> returns exactly one entry, for the key (\<open>milk\<close>, \<open>item\<close>), and
  its quantity is 2, each line counting 1; when the quantities are written as
  multipliers (\<open>1x milk\<close>, \<open>2x milk\<close>) the single entry has quantity 3, again in
  either order. The entry keeps the raw line of the line that came first.
\<close>

theorem parseReceiptText_milk_aggregation:
  "parseReceiptText (''milk 1'' @ [CHR 0x0A] @ ''milk 2'')
     = [\<lparr> rawLine = ''milk 1'', canonicalName = Val ''milk'', displayName = Val ''milk'',
           quantity = 2, unit = ''item'', confidence = 1 \<rparr>]
   \<and> parseReceiptText (''milk 2'' @ [CHR 0x0A] @ ''milk 1'')
     = [\<lparr> rawLine = ''milk 2'', canonicalName = Val ''milk'', displayName = Val ''milk'',
           quantity = 2, unit = ''item'', confidence = 1 \<rparr>]
   \<and> parseReceiptText (''1x milk'' @ [CHR 0x0A] @ ''2x milk'')
     = [\<lparr> rawLine = ''1x milk'', canonicalName = Val ''milk'', displayName = Val ''milk'',
           quantity = 3, unit = ''item'', confidence = 1 \<rparr>]
   \<and> parseReceiptText (''2x milk'' @ [CHR 0x0A] @ ''1x milk'')
     = [\<lparr> rawLine = ''2x milk'', canonicalName = Val ''milk'', displayName = Val ''milk'',
           quantity = 3, unit = ''item'', confidence = 1 \<rparr>]
   \<and> inferQuantity ''milk 1'' = 1 \<and> inferQuantity ''milk 2'' = 1
   \<and> inferQuantity ''1x milk'' = 1 \<and> inferQuantity ''2x milk'' = 2"
  by code_simp

section \<open>Ranking by urgency\<close>

lemma rankItems_eq_map:
  "rankItems clk k pantry = map (\<lambda>i. rankedAt (clk (k + i)) (pantry ! i)) [0..<length pantry]"
proof (induction pantry arbitrary: k)
  case Nil
  show ?case by simp
next
  case (Cons item pantry)
  have "map (\<lambda>i. rankedAt (clk (k + i)) ((item # pantry) ! i)) [0..<length (item # pantry)]
        = rankedAt (clk k) item # map (\<lambda>i. rankedAt (clk (Suc k + i)) (pantry ! i)) [0..<length pantry]"
    by (simp add: upt_conv_Cons map_Suc_upt[symmetric] del: upt_Suc)
  then show ?case
    using Cons.IH[of "Suc k"]
    by (simp add: daysUntil_def daysAt_def rankedAt_def effectiveExpiration_def Let_def)
qed



lemma set_insertBy: "set (insertBy cmp x ys) = insert x (set ys)"
  by (induction ys) auto

lemma mset_insertBy: "mset (insertBy cmp x ys) = add_mset x (mset ys)"
  by (induction ys) auto

lemma mset_sortBy: "mset (sortBy cmp xs) = mset xs"
  unfolding sortBy_def by (induction xs) (simp_all add: mset_insertBy)

lemma set_sortBy: "set (sortBy cmp xs) = set xs"
  using mset_sortBy[of cmp xs] by (metis set_mset_mset)

text \<open>On entries whose days and urgency are numbers, the comparator is at
  most 0 exactly when the first entry belongs before the second, and this
  order is total and transitive.\<close>

lemma compareRanked_le_iff:
  assumes "numericEntry a" "numericEntry b"
  shows "SortCompare compareRanked a b \<le> 0 \<longleftrightarrow> rankedBefore a b"
  using assms
  by (auto simp: numericEntry_def SortCompare_def compareRanked_def rankedBefore_def numSub_def
        numLess_def numLessEq_def numEq_def isTruthy_def Let_def)

lemma rankedBefore_total:
  assumes "numericEntry a" "numericEntry b"
  shows "rankedBefore a b \<or> rankedBefore b a"
  using assms
  by (auto simp: numericEntry_def rankedBefore_def numLess_def numLessEq_def numEq_def)

lemma rankedBefore_trans:
  assumes "rankedBefore a b" "rankedBefore b c"
  shows "rankedBefore a c"
  using assms
  by (auto simp: rankedBefore_def numLess_def numLessEq_def numEq_def split: option.splits)

lemma rankedBefore_numeric:
  "rankedBefore a b \<Longrightarrow> rankedUrgencyScore a \<noteq> None \<and> rankedUrgencyScore b \<noteq> None"
  by (auto simp: rankedBefore_def numLess_def numLessEq_def numEq_def split: option.splits)

lemma sorted_insertBy:
  assumes "numericEntry x" "\<forall>y\<in>set ys. numericEntry y" "sorted_wrt rankedBefore ys"
  shows "sorted_wrt rankedBefore (insertBy compareRanked x ys)"
  using assms(2,3)
proof (induction ys)
  case Nil
  show ?case by simp
next
  case (Cons y ys)
  have y: "numericEntry y" using Cons.prems by simp
  show ?case
  proof (cases "SortCompare compareRanked x y \<le> 0")
    case True
    then have xy: "rankedBefore x y" using compareRanked_le_iff[OF assms(1) y] by simp
    then have "\<forall>z\<in>set ys. rankedBefore x z"
      using Cons.prems(2) rankedBefore_trans by auto
    then show ?thesis using True xy Cons.prems by simp
  next
    case False
    then have "\<not> rankedBefore x y" using compareRanked_le_iff[OF assms(1) y] by simp
    then have "rankedBefore y x" using rankedBefore_total[OF assms(1) y] by blast
    then show ?thesis using False Cons by (auto simp: set_insertBy)
  qed
qed

lemma sorted_sortBy:
  assumes "\<forall>y\<in>set xs. numericEntry y"
  shows "sorted_wrt rankedBefore (sortBy compareRanked xs)"
  using assms
proof (induction xs)
  case Nil
  show ?case by (simp add: sortBy_def)
next
  case (Cons x xs)
  have "sorted_wrt rankedBefore (insertBy compareRanked x (sortBy compareRanked xs))"
    using Cons by (intro sorted_insertBy) (simp_all add: set_sortBy)
  then show ?case by (simp add: sortBy_def)
qed

lemma rankItems_urgency:
  "r \<in> set (rankItems clk k pantry) \<Longrightarrow> rankedUrgencyScore r = urgencyScore (daysUntilExpiration r)"
  unfolding rankItems_eq_map by (auto simp: rankedAt_def)

lemma rankItems_numeric:
  assumes "\<forall>item\<in>set pantry. newDate (effectiveExpiration item) \<noteq> None"
  shows "\<forall>r\<in>set (rankItems clk k pantry). numericEntry r"
  unfolding rankItems_eq_map using assms
  by (auto simp: rankedAt_def numericEntry_def daysAt_def urgencyScore_def split: option.splits)

text \<open>An entry with \<open>NaN\<close> days is in order with no entry, on either side.\<close>

lemma rankedBefore_NaN:
  "rankedUrgencyScore a = None \<Longrightarrow> \<not> rankedBefore a b \<and> \<not> rankedBefore b a"
  by (simp add: rankedBefore_def numLess_def numLessEq_def numEq_def split: option.splits)

text \<open>
  C7, as stated: for every list of inventory items the output of
  \<open>rankExpiringIngredients\<close> is sorted. The expiration dates of an item are
  strings; for one that does not parse, \<open>daysUntil\<close> is \<open>NaN\<close>, and so is the
  urgency score. Every difference with such an entry is \<open>NaN\<close>, which the sort
  reads as "equal". For three items with 10 days left, an unparseable date,
  and -1 day left, the list comes back in the order it was given: urgency 0
  stands before urgency 8. No arrangement of these entries is sorted, as the
  entry with \<open>NaN\<close> is neither above nor below another.
\<close>

theorem rankExpiringIngredients_sorted_counterexample:
  "map rankedCanonicalName (rankExpiringIngredients epochClock 0 unparseablePantry)
     = [''garlic'', ''egg'', ''milk'']
   \<and> map rankedUrgencyScore (rankExpiringIngredients epochClock 0 unparseablePantry)
       = [Some 0, None, Some 8]
   \<and> map daysUntilExpiration (rankExpiringIngredients epochClock 0 unparseablePantry)
       = [Some 10, None, Some (- 1)]
   \<and> \<not> sorted_wrt rankedBefore (rankExpiringIngredients epochClock 0 unparseablePantry)
   \<and> \<not> (\<exists>ys. mset ys = mset (rankItems epochClock 0 unparseablePantry)
             \<and> sorted_wrt rankedBefore ys)"
proof -
  have r: "rankItems epochClock 0 unparseablePantry =
     [\<lparr> rankedCanonicalName = ''garlic'', rankedDisplayName = ''Garlic'',
         daysUntilExpiration = Some 10, rankedUrgencyScore = Some 0 \<rparr>,
      \<lparr> rankedCanonicalName = ''egg'', rankedDisplayName = ''Eggs'',
         daysUntilExpiration = None, rankedUrgencyScore = None \<rparr>,
      \<lparr> rankedCanonicalName = ''milk'', rankedDisplayName = ''Milk'',
         daysUntilExpiration = Some (- 1), rankedUrgencyScore = Some 8 \<rparr>]"
    by (simp add: unparseablePantry_def epochClock_def daysUntil_def ceilDays_def msPerDay_def
          TimeClip_def maxTime_def urgencyScore_def)
  have s: "rankExpiringIngredients epochClock 0 unparseablePantry = rankItems epochClock 0 unparseablePantry"
    unfolding rankExpiringIngredients_def r
    by (simp add: sortBy_def compareRanked_def SortCompare_def numSub_def isTruthy_def)
  have n1: "\<not> sorted_wrt rankedBefore (rankExpiringIngredients epochClock 0 unparseablePantry)"
    unfolding s r by (simp add: rankedBefore_def numLess_def numLessEq_def numEq_def)
  have n2: "\<not> (\<exists>ys. mset ys = mset (rankItems epochClock 0 unparseablePantry)
             \<and> sorted_wrt rankedBefore ys)"
  proof
    assume "\<exists>ys. mset ys = mset (rankItems epochClock 0 unparseablePantry) \<and> sorted_wrt rankedBefore ys"
    then obtain ys where ys: "mset ys = mset (rankItems epochClock 0 unparseablePantry)"
      and so: "sorted_wrt rankedBefore ys" by blast
    define e where "e = \<lparr> rankedCanonicalName = ''egg'', rankedDisplayName = ''Eggs'',
         daysUntilExpiration = None, rankedUrgencyScore = None \<rparr>"
    define g where "g = \<lparr> rankedCanonicalName = ''garlic'', rankedDisplayName = ''Garlic'',
         daysUntilExpiration = Some 10, rankedUrgencyScore = Some 0 \<rparr>"
    have "set ys = set (rankItems epochClock 0 unparseablePantry)"
      using ys by (metis set_mset_mset)
    then have mem: "e \<in> set ys" "g \<in> set ys" by (simp_all add: r e_def g_def)
    have ne: "e \<noteq> g" by (simp add: e_def g_def)
    have "rankedBefore e g \<or> rankedBefore g e"
      using so mem ne
      by (metis in_set_conv_nth nat_neq_iff sorted_wrt_iff_nth_less)
    moreover have "rankedUrgencyScore e = None" by (simp add: e_def)
    ultimately show False using rankedBefore_NaN by blast
  qed
  show ?thesis using n1 n2 unfolding s r by simp
qed

text \<open>
  C7, amended: for every list of inventory items whose effective expiration
  dates all parse to valid instants (and every run of the clock), the output
  of \<open>rankExpiringIngredients\<close> is sorted: of two entries the earlier one has
  the higher \<open>urgencyScore\<close>, or the same score and at most as many
  \<open>daysUntilExpiration\<close>. For every list, the output is a rearrangement of the
  entries computed for the items, and when those entries have the days
  -1, 0, 10, 3, they are returned in the order -1, 0, 3, 10.
\<close>

theorem rankExpiringIngredients_sorted:
  "((\<forall>item\<in>set pantry. newDate (effectiveExpiration item) \<noteq> None)
      \<longrightarrow> sorted_wrt rankedBefore (rankExpiringIngredients clk k pantry))
   \<and> mset (rankExpiringIngredients clk k pantry) = mset (rankItems clk k pantry)
   \<and> (map daysUntilExpiration (rankItems clk k pantry) = [Some (- 1), Some 0, Some 10, Some 3]
        \<longrightarrow> map daysUntilExpiration (rankExpiringIngredients clk k pantry)
              = [Some (- 1), Some 0, Some 3, Some 10])"
proof (intro conjI impI)
  assume "\<forall>item\<in>set pantry. newDate (effectiveExpiration item) \<noteq> None"
  then have "\<forall>r\<in>set (rankItems clk k pantry). numericEntry r"
    by (rule rankItems_numeric)
  then show "sorted_wrt rankedBefore (rankExpiringIngredients clk k pantry)"
    unfolding rankExpiringIngredients_def by (rule sorted_sortBy)
next
  show "mset (rankExpiringIngredients clk k pantry) = mset (rankItems clk k pantry)"
    by (simp add: rankExpiringIngredients_def mset_sortBy)
next
  assume days: "map daysUntilExpiration (rankItems clk k pantry) = [Some (- 1), Some 0, Some 10, Some 3]"
  then obtain a b c d where abcd: "rankItems clk k pantry = [a, b, c, d]"
    and d: "daysUntilExpiration a = Some (- 1)" "daysUntilExpiration b = Some 0"
           "daysUntilExpiration c = Some 10" "daysUntilExpiration d = Some 3"
    by (auto simp: map_eq_Cons_conv)
  have u: "rankedUrgencyScore a = Some 8" "rankedUrgencyScore b = Some 7"
          "rankedUrgencyScore c = Some 0" "rankedUrgencyScore d = Some 4"
    using rankItems_urgency[of _ clk k pantry] d
    by (simp_all add: abcd urgencyScore_def)
  show "map daysUntilExpiration (rankExpiringIngredients clk k pantry)
          = [Some (- 1), Some 0, Some 3, Some 10]"
    by (simp add: rankExpiringIngredients_def abcd sortBy_def compareRanked_def SortCompare_def
          numSub_def isTruthy_def d u)
qed

theorem rankExpiringIngredients_sorted_witness:
  "map daysUntilExpiration (rankItems epochClock 0 samplePantry) = [Some (- 1), Some 0, Some 10, Some 3]
   \<and> map daysUntilExpiration (rankExpiringIngredients epochClock 0 samplePantry)
       = [Some (- 1), Some 0, Some 3, Some 10]
   \<and> sorted_wrt rankedBefore (rankExpiringIngredients epochClock 0 samplePantry)"
proof -
  have h: "map daysUntilExpiration (rankItems epochClock 0 samplePantry)
             = [Some (- 1), Some 0, Some 10, Some 3]"
    by (simp add: samplePantry_def epochClock_def daysUntil_def ceilDays_def msPerDay_def
          TimeClip_def maxTime_def)
  have p: "\<forall>item\<in>set samplePantry. newDate (effectiveExpiration item) \<noteq> None"
    by (simp add: samplePantry_def effectiveExpiration_def TimeClip_def maxTime_def)
  from rankExpiringIngredients_sorted[of samplePantry epochClock 0] h p
  show ?thesis by blast
qed




section \<open>Expiration dates\<close>

lemma getProp_shelf_cases:
  "getProp SHELF_LIFE_BY_INGREDIENT name = Some v \<Longrightarrow>
     (\<exists>n. v = Val n \<and> (name, n) \<in> set SHELF_LIFE_BY_INGREDIENT) \<or> (v = ProtoMember name \<and> name \<in> set objectPrototypeNames)"
  by (auto simp: getProp_def split: option.splits if_splits dest: map_of_SomeD)

lemma shelf_entries_ge2: "(name, n) \<in> set SHELF_LIFE_BY_INGREDIENT \<Longrightarrow> 2 \<le> n"
  by (auto simp: SHELF_LIFE_BY_INGREDIENT_def)

lemma getShelfLifeDays_number:
  assumes "name \<notin> set objectPrototypeNames"
  shows "\<exists>n. getShelfLifeDays name = Val n \<and> 2 \<le> n
             \<and> ((name, n) \<in> set SHELF_LIFE_BY_INGREDIENT
                 \<or> (name \<notin> set vocabulary \<and> n = DEFAULT_SHELF_LIFE_DAYS))"
proof (cases "getProp SHELF_LIFE_BY_INGREDIENT name")
  case None
  then have "map_of SHELF_LIFE_BY_INGREDIENT name = None"
    by (auto simp: getProp_def split: option.splits)
  then have "name \<notin> set vocabulary"
    by (simp add: vocabulary_def map_of_eq_None_iff)
  then show ?thesis using None
    by (simp add: getShelfLifeDays_def DEFAULT_SHELF_LIFE_DAYS_def)
next
  case (Some v)
  from getProp_shelf_cases[OF Some] assms
  obtain n where "v = Val n" "(name, n) \<in> set SHELF_LIFE_BY_INGREDIENT" by blast
  then show ?thesis using Some shelf_entries_ge2[of name n]
    by (simp add: getShelfLifeDays_def)
qed

text \<open>
  C6, as stated: for every canonical name, purchase date and supplied
  non-empty override, \<open>expirationDateForItem\<close> returns the normalised override.
  An override that is not empty and does not parse makes an invalid date, on
  which \<open>toISOString\<close> throws a \<open>RangeError\<close>: nothing is returned.
\<close>

theorem expirationDateForItem_override_counterexample:
  "BadText \<noteq> EmptyText
   \<and> newDate BadText = None
   \<and> expirationDateForItem utcZone ''milk'' (DateText 0) (Some BadText) = Inl RangeError"
  by (simp add: expirationDateForItem_def toISOString_def)

text \<open>
  C6, amended: for every canonical name and purchase date, when an override
  that is not the empty string is supplied: if the override parses to a valid
  instant, \<open>expirationDateForItem\<close> returns that instant (in ISO form); if it
  does not, the call throws a \<open>RangeError\<close>. In both cases no shelf life enters:
  the outcome is the same for every other canonical name (in the shelf-life
  table or not) and every other purchase date.
\<close>

theorem expirationDateForItem_override:
  "ov \<noteq> EmptyText \<Longrightarrow>
     (\<forall>t. newDate ov = Some t
          \<longrightarrow> expirationDateForItem z name purchaseDate (Some ov) = Inr t)
     \<and> (newDate ov = None
          \<longrightarrow> expirationDateForItem z name purchaseDate (Some ov) = Inl RangeError)
     \<and> expirationDateForItem z name purchaseDate (Some ov)
         = expirationDateForItem z name' purchaseDate' (Some ov)"
  by (simp add: expirationDateForItem_def toISOString_def)

theorem expirationDateForItem_override_witness:
  "DateText 1704067200000 \<noteq> EmptyText
   \<and> newDate (DateText 1704067200000) = Some 1704067200000
   \<and> ''dragonfruit'' \<notin> set vocabulary
   \<and> expirationDateForItem utcZone ''dragonfruit'' (DateText 0) (Some (DateText 1704067200000))
       = Inr 1704067200000
   \<and> expirationDateForItem utcZone ''chicken'' BadText (Some (DateText 1704067200000))
       = Inr 1704067200000
   \<and> expirationDateForItem utcZone ''dragonfruit'' (DateText 0) (Some BadText) = Inl RangeError"
proof -
  have h: "DateText 1704067200000 \<noteq> EmptyText" by simp
  have p: "newDate (DateText 1704067200000) = Some 1704067200000"
    by (simp add: TimeClip_def maxTime_def)
  have v: "''dragonfruit'' \<notin> set vocabulary"
    by (simp add: vocabulary_def SHELF_LIFE_BY_INGREDIENT_def)
  have b: "BadText \<noteq> EmptyText" "newDate BadText = None" by simp_all
  from expirationDateForItem_override[OF h, of utcZone "''dragonfruit''" "DateText 0"] p
  have "expirationDateForItem utcZone ''dragonfruit'' (DateText 0) (Some (DateText 1704067200000))
       = Inr 1704067200000" by blast
  moreover from expirationDateForItem_override[OF h, of utcZone "''chicken''" BadText] p
  have "expirationDateForItem utcZone ''chicken'' BadText (Some (DateText 1704067200000))
       = Inr 1704067200000" by blast
  moreover from expirationDateForItem_override[OF b(1), of utcZone "''dragonfruit''" "DateText 0"] b(2)
  have "expirationDateForItem utcZone ''dragonfruit'' (DateText 0) (Some BadText) = Inl RangeError"
    by blast
  ultimately show ?thesis using h p v by blast
qed

text \<open>
  C10, as stated: for every canonical name and valid purchase date, without an
  override the result is a timestamp later than the purchase. A \<open>Date\<close> cannot
  hold an instant beyond \<open>8.64e15\<close> ms; for the last valid purchase date the
  shifted date is invalid and \<open>toISOString\<close> throws.
\<close>

theorem expirationDateForItem_later_counterexample:
  "expirationDateForItem utcZone ''milk'' (DateText maxTime) None = Inl RangeError
   \<and> newDate (DateText maxTime) = Some maxTime"
  by (simp add: expirationDateForItem_def toISOString_def TimeClip_def addLocalDays_def
        getShelfLifeDays_def getProp_def SHELF_LIFE_BY_INGREDIENT_def utcZone_def maxTime_def
        msPerDay_def)

text \<open>
  A name that \<open>Object.prototype\<close> defines is not absent for the table read of
  \<open>getShelfLifeDays\<close>, which then returns a function instead of a number of
  days; the date becomes invalid and \<open>toISOString\<close> throws.
\<close>

lemma expirationDateForItem_inherited_name:
  "expirationDateForItem utcZone ''constructor'' (DateText 1704067200000) None = Inl RangeError"
  by (simp add: expirationDateForItem_def toISOString_def TimeClip_def addLocalDays_def
        getShelfLifeDays_def getProp_def SHELF_LIFE_BY_INGREDIENT_def objectPrototypeNames_def maxTime_def)

text \<open>
  C10, amended: for every canonical name that \<open>Object.prototype\<close> does not
  define, \<open>getShelfLifeDays\<close> returns a number of at least 2 days (an entry of
  the table, all of which are at least 2, or the default 7 for a name not in
  the table). For every valid purchase date, in a time zone whose offsets are
  below one day, without an override (or with the empty string as override),
  the date shifted by that many local days is strictly later than the
  purchase date, and \<open>expirationDateForItem\<close> returns it unless it lies beyond
  the last instant a \<open>Date\<close> can hold, in which case it throws a \<open>RangeError\<close>.
\<close>

theorem expirationDateForItem_later:
  assumes name: "name \<notin> set objectPrototypeNames"
      and zone: "\<forall>x. \<bar>offsetAtUTC z x\<bar> < msPerDay \<and> \<bar>offsetAtLocal z x\<bar> < msPerDay"
      and valid: "\<bar>t\<bar> \<le> maxTime"
  shows "\<exists>n. getShelfLifeDays name = Val n \<and> 2 \<le> n
           \<and> ((name, n) \<in> set SHELF_LIFE_BY_INGREDIENT
               \<or> (name \<notin> set vocabulary \<and> n = DEFAULT_SHELF_LIFE_DAYS))
           \<and> (let newLocal = t + offsetAtUTC z t + int n * msPerDay;
                   r = newLocal - offsetAtLocal z newLocal
               in t < r
                  \<and> expirationDateForItem z name (DateText t) None
                      = (if r \<le> maxTime then Inr r else Inl RangeError)
                  \<and> expirationDateForItem z name (DateText t) (Some EmptyText)
                      = expirationDateForItem z name (DateText t) None)"
proof -
  from getShelfLifeDays_number[OF name]
  obtain n where n: "getShelfLifeDays name = Val n" "2 \<le> n"
     "(name, n) \<in> set SHELF_LIFE_BY_INGREDIENT \<or> (name \<notin> set vocabulary \<and> n = DEFAULT_SHELF_LIFE_DAYS)"
    by blast
  define newLocal where "newLocal = t + offsetAtUTC z t + int n * msPerDay"
  define r where "r = newLocal - offsetAtLocal z newLocal"
  have "2 * msPerDay \<le> int n * msPerDay"
    using n(2) by (simp add: msPerDay_def)
  moreover have "\<bar>offsetAtUTC z t\<bar> < msPerDay" "\<bar>offsetAtLocal z newLocal\<bar> < msPerDay"
    using zone by blast+
  ultimately have later: "t < r"
    by (simp add: r_def newLocal_def)
  have "- maxTime \<le> t" using valid by simp
  then have clip: "TimeClip r = (if r \<le> maxTime then Some r else None)"
    using later by (auto simp: TimeClip_def)
  have res: "expirationDateForItem z name (DateText t) None
               = (if r \<le> maxTime then Inr r else Inl RangeError)"
    using valid clip
    by (simp add: expirationDateForItem_def addLocalDays_def n(1) TimeClip_def toISOString_def
          Let_def r_def newLocal_def)
  have "expirationDateForItem z name (DateText t) (Some EmptyText)
          = expirationDateForItem z name (DateText t) None"
    by (simp add: expirationDateForItem_def)
  with later res n show ?thesis
    by (auto simp: Let_def r_def newLocal_def)
qed

theorem expirationDateForItem_later_witness:
  "''chicken'' \<notin> set objectPrototypeNames
   \<and> (\<forall>x. \<bar>offsetAtUTC utcZone x\<bar> < msPerDay \<and> \<bar>offsetAtLocal utcZone x\<bar> < msPerDay)
   \<and> \<bar>1704067200000\<bar> \<le> maxTime
   \<and> getShelfLifeDays ''chicken'' = Val 2
   \<and> expirationDateForItem utcZone ''chicken'' (DateText 1704067200000) None = Inr 1704240000000"
proof -
  have a: "''chicken'' \<notin> set objectPrototypeNames"
    by (simp add: objectPrototypeNames_def)
  have b: "\<forall>x. \<bar>offsetAtUTC utcZone x\<bar> < msPerDay \<and> \<bar>offsetAtLocal utcZone x\<bar> < msPerDay"
    by (simp add: utcZone_def msPerDay_def)
  have c: "\<bar>1704067200000\<bar> \<le> maxTime"
    by (simp add: maxTime_def)
  have d: "getShelfLifeDays ''chicken'' = Val 2"
    by (simp add: getShelfLifeDays_def getProp_def SHELF_LIFE_BY_INGREDIENT_def)
  from expirationDateForItem_later[OF a b c]
  have "expirationDateForItem utcZone ''chicken'' (DateText 1704067200000) None = Inr 1704240000000"
    by (simp add: d Let_def utcZone_def msPerDay_def maxTime_def)
  with a b c d show ?thesis by blast
qed

section \<open>Canonical names\<close>

lemma replace_from_class:
  "replace_from (In k) [] p s = filter (\<lambda>c. \<not> in_cls k c) s"
  by (induction s arbitrary: p) (simp_all add: match_here_def)

lemma normalizeToken_filter:
  "normalizeToken v = filter (\<lambda>c. c \<in> set lowerAZ) (map toLowerChar v)"
  by (simp add: normalizeToken_def replaceAll_def replace_from_class toLowerCase_def)

lemma normalizeToken_letters: "set (normalizeToken v) \<subseteq> set lowerAZ"
  by (auto simp: normalizeToken_filter)

lemma lower_not_upper_all: "list_all (\<lambda>c. c \<notin> set (upperAZ @ upperLatin1)) lowerAZ"
  by code_simp

lemma lower_not_upper: "c \<in> set lowerAZ \<Longrightarrow> c \<notin> set (upperAZ @ upperLatin1)"
  using lower_not_upper_all unfolding list_all_iff by blast

lemma toLowerChar_lower: "c \<in> set lowerAZ \<Longrightarrow> toLowerChar c = c"
proof -
  assume "c \<in> set lowerAZ"
  then have "c \<notin> set (upperAZ @ upperLatin1)" by (rule lower_not_upper)
  moreover have "length (upperAZ @ upperLatin1) = length (lowerAZ @ lowerLatin1)"
    by (simp add: lowerAZ_def upperAZ_def upperLatin1_def lowerLatin1_def)
  ultimately have "map_of (zip (upperAZ @ upperLatin1) (lowerAZ @ lowerLatin1)) c = None"
    by (simp add: map_of_zip_is_None)
  then show ?thesis by (simp add: toLowerChar_def)
qed

lemma normalizeToken_fixed: "set s \<subseteq> set lowerAZ \<Longrightarrow> normalizeToken s = s"
proof -
  assume a: "set s \<subseteq> set lowerAZ"
  then have "map toLowerChar s = s"
    by (induction s) (auto simp: toLowerChar_lower)
  moreover have "filter (\<lambda>c. c \<in> set lowerAZ) s = s"
    using a by (induction s) auto
  ultimately show ?thesis by (simp add: normalizeToken_filter)
qed

lemma normalizeToken_idem: "normalizeToken (normalizeToken v) = normalizeToken v"
  by (rule normalizeToken_fixed) (rule normalizeToken_letters)

lemma canonicalizeIngredient_normalized:
  "canonicalizeIngredient (normalizeToken v) = canonicalizeIngredient v"
  by (simp add: canonicalizeIngredient_def normalizeToken_idem)

lemma inherited_letters_all:
  "list_all (\<lambda>n. set n \<subseteq> set lowerAZ \<longrightarrow> n = ''constructor'') objectPrototypeNames"
  by code_simp

lemma inherited_letters_name:
  "n \<in> set objectPrototypeNames \<Longrightarrow> set n \<subseteq> set lowerAZ \<Longrightarrow> n = ''constructor''"
  using inherited_letters_all unfolding list_all_iff by blast

lemma vocabulary_letters_all:
  "list_all (\<lambda>k. set k \<subseteq> set lowerAZ \<and> k \<noteq> [] \<and> k \<noteq> ''unknown'' \<and> k \<noteq> ''constructor'')
            vocabulary"
  by code_simp

lemma vocabulary_letters:
  "k \<in> set vocabulary \<Longrightarrow> set k \<subseteq> set lowerAZ \<and> k \<noteq> [] \<and> k \<noteq> ''unknown'' \<and> k \<noteq> ''constructor''"
  using vocabulary_letters_all unfolding list_all_iff by blast

lemma alias_values_all: "list_all (\<lambda>(k, a). a \<in> set vocabulary) INGREDIENT_ALIASES"
  by code_simp

lemma alias_values: "(k, a) \<in> set INGREDIENT_ALIASES \<Longrightarrow> a \<in> set vocabulary"
  using alias_values_all unfolding list_all_iff by blast

lemma vocabulary_resolves_all:
  "list_all (\<lambda>k. canonicalizeIngredient k = (Val k, 1)) vocabulary"
  by code_simp

lemma vocabulary_resolves: "k \<in> set vocabulary \<Longrightarrow> canonicalizeIngredient k = (Val k, 1)"
  using vocabulary_resolves_all unfolding list_all_iff by blast

lemma unknown_resolves: "canonicalizeIngredient ''unknown'' = (Val ''unknown'', 1 / 2)"
  by code_simp

lemma constructor_resolves:
  "canonicalizeIngredient ''constructor'' = (ProtoMember ''constructor'', 95 / 100)"
  by code_simp

text \<open>The loop over the vocabulary keeps the first entry of least distance.\<close>

lemma fold_bestStep_firstMinimum:
  "ks \<noteq> [] \<Longrightarrow>
     \<exists>i. firstMinimum (levenshteinDistance n) ks i
         \<and> fold (bestStep n) ks (u, None) = (ks ! i, Some (levenshteinDistance n (ks ! i)))"
proof (induction ks rule: rev_induct)
  case Nil
  then show ?case by simp
next
  case (snoc k ks)
  show ?case
  proof (cases "ks = []")
    case True
    then show ?thesis
      by (auto simp: bestStep_def firstMinimum_def)
  next
    case False
    with snoc.IH obtain i where i: "firstMinimum (levenshteinDistance n) ks i"
      and f: "fold (bestStep n) ks (u, None) = (ks ! i, Some (levenshteinDistance n (ks ! i)))"
      by blast
    have il: "i < length ks" using i by (simp add: firstMinimum_def)
    show ?thesis
    proof (cases "levenshteinDistance n k < levenshteinDistance n (ks ! i)")
      case True
      have low: "levenshteinDistance n k < levenshteinDistance n (ks ! j)" if "j < length ks" for j
      proof -
        have "levenshteinDistance n (ks ! i) \<le> levenshteinDistance n (ks ! j)"
          using i that by (simp add: firstMinimum_def)
        with True show ?thesis by simp
      qed
      have "firstMinimum (levenshteinDistance n) (ks @ [k]) (length ks)"
        unfolding firstMinimum_def
      proof (intro conjI allI impI)
        show "length ks < length (ks @ [k])" by simp
      next
        fix j assume "j < length (ks @ [k])"
        then consider "j < length ks" | "j = length ks" by fastforce
        then show "levenshteinDistance n ((ks @ [k]) ! length ks)
                     \<le> levenshteinDistance n ((ks @ [k]) ! j)"
        proof cases
          case 1
          then show ?thesis using low[of j] by (simp add: nth_append)
        next
          case 2
          then show ?thesis by simp
        qed
      next
        fix j assume "j < length ks"
        then show "levenshteinDistance n ((ks @ [k]) ! length ks)
                     < levenshteinDistance n ((ks @ [k]) ! j)"
          using low[of j] by (simp add: nth_append)
      qed
      moreover have "fold (bestStep n) (ks @ [k]) (u, None) = (k, Some (levenshteinDistance n k))"
        using True by (simp add: f bestStep_def)
      ultimately show ?thesis
        by (intro exI[of _ "length ks"]) simp
    next
      case False
      have "firstMinimum (levenshteinDistance n) (ks @ [k]) i"
        unfolding firstMinimum_def
      proof (intro conjI allI impI)
        show "i < length (ks @ [k])" using il by simp
      next
        fix j assume "j < length (ks @ [k])"
        then consider "j < length ks" | "j = length ks" by fastforce
        then show "levenshteinDistance n ((ks @ [k]) ! i)
                     \<le> levenshteinDistance n ((ks @ [k]) ! j)"
        proof cases
          case 1
          then show ?thesis using i il by (simp add: nth_append firstMinimum_def)
        next
          case 2
          then show ?thesis using False il by (simp add: nth_append)
        qed
      next
        fix j assume "j < i"
        then show "levenshteinDistance n ((ks @ [k]) ! i)
                     < levenshteinDistance n ((ks @ [k]) ! j)"
          using i il by (simp add: nth_append firstMinimum_def)
      qed
      moreover have "fold (bestStep n) (ks @ [k]) (u, None)
                       = (ks ! i, Some (levenshteinDistance n (ks ! i)))"
        using False by (simp add: f bestStep_def)
      ultimately show ?thesis
        using il by (intro exI[of _ i]) (simp add: nth_append)
    qed
  qed
qed

lemma vocabulary_nonempty: "vocabulary \<noteq> []"
  by (simp add: vocabulary_def SHELF_LIFE_BY_INGREDIENT_def)

lemma getProp_alias_cases:
  "getProp INGREDIENT_ALIASES n = Some v \<Longrightarrow>
     (\<exists>a. v = Val a \<and> (n, a) \<in> set INGREDIENT_ALIASES)
     \<or> (v = ProtoMember n \<and> n \<in> set objectPrototypeNames)"
  by (auto simp: getProp_def split: option.splits if_splits dest: map_of_SomeD)

lemma toFixed2_lower: "55 / 100 \<le> x \<Longrightarrow> 55 / 100 \<le> toFixed2 x"
proof -
  assume "55 / 100 \<le> x"
  then have "of_int 55 \<le> 100 * x + 1 / 2" by simp
  then have "55 \<le> \<lfloor>100 * x + 1 / 2\<rfloor>" by (simp only: le_floor_iff)
  then have "(55::rat) \<le> of_int \<lfloor>100 * x + 1 / 2\<rfloor>" by linarith
  then show ?thesis by (simp add: toFixed2_def)
qed

lemma fuzzyFallback_firstMinimum:
  assumes "n \<noteq> []"
  shows "\<exists>i. firstMinimum (levenshteinDistance n) vocabulary i
           \<and> fuzzyFallback n =
               (let best = vocabulary ! i;
                    similarity = 1 - of_nat (levenshteinDistance n best)
                                       / of_nat (max (length best) (length n))
                in if 55 / 100 \<le> similarity then (Val best, toFixed2 similarity)
                   else (Val n, 1 / 2))"
proof -
  from fold_bestStep_firstMinimum[OF vocabulary_nonempty, of n "''unknown''"]
  obtain i where i: "firstMinimum (levenshteinDistance n) vocabulary i"
    and f: "fold (bestStep n) vocabulary (''unknown'', None)
              = (vocabulary ! i, Some (levenshteinDistance n (vocabulary ! i)))"
    by blast
  have "fuzzyFallback n =
               (let best = vocabulary ! i;
                    similarity = 1 - of_nat (levenshteinDistance n best)
                                       / of_nat (max (length best) (length n))
                in if 55 / 100 \<le> similarity then (Val best, toFixed2 similarity)
                   else (Val n, 1 / 2))"
    using assms unfolding fuzzyFallback_def f by (simp add: Let_def)
  with i show ?thesis by blast
qed

lemma fuzzyFallback_result:
  assumes "n \<noteq> []"
  shows "(\<exists>b. b \<in> set vocabulary \<and> fst (fuzzyFallback n) = Val b \<and> 55 / 100 \<le> snd (fuzzyFallback n))
         \<or> fuzzyFallback n = (Val n, 1 / 2)"
proof -
  from fuzzyFallback_firstMinimum[OF assms]
  obtain i where i: "firstMinimum (levenshteinDistance n) vocabulary i"
    and f: "fuzzyFallback n =
               (let best = vocabulary ! i;
                    similarity = 1 - of_nat (levenshteinDistance n best)
                                       / of_nat (max (length best) (length n))
                in if 55 / 100 \<le> similarity then (Val best, toFixed2 similarity)
                   else (Val n, 1 / 2))"
    by blast
  have "vocabulary ! i \<in> set vocabulary"
    using i by (simp add: firstMinimum_def)
  then show ?thesis
    unfolding f Let_def using toFixed2_lower by auto
qed

text \<open>What \<open>canonicalizeIngredient\<close> returns, by the normalised input.\<close>

lemma canonicalizeIngredient_result:
  assumes "normalizeToken raw = n" and "n \<noteq> []"
  shows "(n = ''constructor'' \<and> canonicalizeIngredient raw = (ProtoMember n, 95 / 100))
       \<or> (n \<noteq> ''constructor''
           \<and> ((\<exists>b. b \<in> set vocabulary \<and> fst (canonicalizeIngredient raw) = Val b
                    \<and> 55 / 100 \<le> snd (canonicalizeIngredient raw))
               \<or> canonicalizeIngredient raw = (Val n, 1 / 2)))"
proof -
  have letters: "set n \<subseteq> set lowerAZ"
    using assms(1) normalizeToken_letters by blast
  show ?thesis
  proof (cases "getProp INGREDIENT_ALIASES n")
    case (Some v)
    from getProp_alias_cases[OF Some] show ?thesis
    proof
      assume "\<exists>a. v = Val a \<and> (n, a) \<in> set INGREDIENT_ALIASES"
      then obtain a where a: "v = Val a" "(n, a) \<in> set INGREDIENT_ALIASES" by blast
      then have av: "a \<in> set vocabulary" using alias_values by blast
      then have "a \<noteq> []" using vocabulary_letters by blast
      moreover have "n \<noteq> ''constructor''"
        using a(2) by (auto simp: INGREDIENT_ALIASES_def)
      ultimately show ?thesis
        using assms Some a av by (auto simp: canonicalizeIngredient_def)
    next
      assume p: "v = ProtoMember n \<and> n \<in> set objectPrototypeNames"
      then have "n = ''constructor''"
        using letters inherited_letters_name by blast
      then show ?thesis
        using assms Some p by (simp add: canonicalizeIngredient_def)
    qed
  next
    case None
    then have notproto: "n \<notin> set objectPrototypeNames"
      by (auto simp: getProp_def split: option.splits if_splits)
    then have nc: "n \<noteq> ''constructor''"
      by (auto simp: objectPrototypeNames_def)
    have c: "canonicalizeIngredient raw = vocabularyOrFuzzy n"
      using assms None by (simp add: canonicalizeIngredient_def)
    show ?thesis
    proof (cases "getProp SHELF_LIFE_BY_INGREDIENT n")
      case None
      then show ?thesis
        using c nc fuzzyFallback_result[OF assms(2)]
        by (simp add: vocabularyOrFuzzy_def)
    next
      case (Some w)
      from getProp_shelf_cases[OF Some] notproto
      obtain d where d: "w = Val d" "(n, d) \<in> set SHELF_LIFE_BY_INGREDIENT" by blast
      then have "n \<in> set vocabulary"
        by (force simp: vocabulary_def)
      then show ?thesis
        using c nc Some d fuzzyFallback_result[OF assms(2)]
        by (auto simp: vocabularyOrFuzzy_def)
    qed
  qed
qed

text \<open>
  C4, as stated: the canonical name \<open>unknown\<close> is returned if and only if the
  input normalises to the empty string. The input \<open>unknown\<close> is a counterexample:
  it normalises to itself, is no alias and no vocabulary entry, is not close
  enough to any entry, and so comes back as its own canonical name.
\<close>

theorem canonicalizeIngredient_sentinel_counterexample:
  "\<not> (fst (canonicalizeIngredient ''unknown'') = Val ''unknown'' \<longleftrightarrow> normalizeToken ''unknown'' = [])"
  by code_simp

text \<open>
  C4, amended: \<open>canonicalizeIngredient\<close> returns the sentinel result, the name
  \<open>unknown\<close> with confidence 0, if and only if the input normalises to the empty
  string, and confidence 0 occurs in no other case. Every other input gets a
  confidence of at least 0.5 and, unless it normalises to \<open>constructor\<close>, a
  canonical name that is a non-empty string; that string is \<open>unknown\<close> exactly
  when the normalised input is itself \<open>unknown\<close> (confidence 0.5). The function
  is total: it has no failing branch, and no input is rejected.
\<close>

theorem canonicalizeIngredient_sentinel:
  "(canonicalizeIngredient raw = (Val ''unknown'', 0) \<longleftrightarrow> normalizeToken raw = [])
   \<and> (snd (canonicalizeIngredient raw) = 0 \<longleftrightarrow> normalizeToken raw = [])
   \<and> (normalizeToken raw \<noteq> [] \<longrightarrow> 1 / 2 \<le> snd (canonicalizeIngredient raw))
   \<and> (normalizeToken raw \<noteq> [] \<and> normalizeToken raw \<noteq> ''constructor'' \<longrightarrow>
        (\<exists>s. fst (canonicalizeIngredient raw) = Val s \<and> s \<noteq> []
             \<and> (s = ''unknown'' \<longleftrightarrow> normalizeToken raw = ''unknown'')))"
proof (cases "normalizeToken raw = []")
  case True
  then show ?thesis by (simp add: canonicalizeIngredient_def)
next
  case False
  define n where "n = normalizeToken raw"
  have n: "normalizeToken raw = n" "n \<noteq> []" using False by (simp_all add: n_def)
  from canonicalizeIngredient_result[OF n]
  consider
      (inherited) "n = ''constructor''" "canonicalizeIngredient raw = (ProtoMember n, 95 / 100)"
    | (known) b where "n \<noteq> ''constructor''" "b \<in> set vocabulary"
        "fst (canonicalizeIngredient raw) = Val b" "55 / 100 \<le> snd (canonicalizeIngredient raw)"
    | (own) "n \<noteq> ''constructor''" "canonicalizeIngredient raw = (Val n, 1 / 2)"
    by blast
  then show ?thesis
  proof cases
    case inherited
    then show ?thesis using n by simp
  next
    case known
    have b: "b \<noteq> []" "b \<noteq> ''unknown''" using known(2) vocabulary_letters by blast+
    have u: "n \<noteq> ''unknown''"
    proof
      assume "n = ''unknown''"
      then have "canonicalizeIngredient raw = canonicalizeIngredient ''unknown''"
        using n(1) canonicalizeIngredient_normalized[of raw] by simp
      then show False using known(3) b(2) by (simp add: unknown_resolves)
    qed
    have pos: "snd (canonicalizeIngredient raw) \<noteq> 0" "1 / 2 \<le> snd (canonicalizeIngredient raw)"
      using known(4) by simp_all
    have ne: "canonicalizeIngredient raw \<noteq> (Val ''unknown'', 0)"
      using pos(1) by auto
    show ?thesis using n known(3) b u pos ne by simp
  next
    case own
    then show ?thesis using n by simp
  qed
qed

theorem canonicalizeIngredient_sentinel_witness:
  "normalizeToken ''Oat Milk 2%'' \<noteq> [] \<and> normalizeToken ''Oat Milk 2%'' \<noteq> ''constructor''
   \<and> normalizeToken ''Oat Milk 2%'' \<noteq> ''unknown''
   \<and> fst (canonicalizeIngredient ''Oat Milk 2%'') \<noteq> Val ''unknown''
   \<and> 1 / 2 \<le> snd (canonicalizeIngredient ''Oat Milk 2%'')
   \<and> normalizeToken ''#42'' = []
   \<and> canonicalizeIngredient ''#42'' = (Val ''unknown'', 0)"
proof -
  have a: "normalizeToken ''Oat Milk 2%'' \<noteq> []" "normalizeToken ''Oat Milk 2%'' \<noteq> ''constructor''"
          "normalizeToken ''Oat Milk 2%'' \<noteq> ''unknown''"
    by code_simp+
  have e: "normalizeToken ''#42'' = []" by code_simp
  note t = canonicalizeIngredient_sentinel
  from t[of "''Oat Milk 2%''"] a
  have "fst (canonicalizeIngredient ''Oat Milk 2%'') \<noteq> Val ''unknown''"
       "1 / 2 \<le> snd (canonicalizeIngredient ''Oat Milk 2%'')"
    by auto
  moreover from t[of "''#42''"] e
  have "canonicalizeIngredient ''#42'' = (Val ''unknown'', 0)" by blast
  ultimately show ?thesis using a e by blast
qed

text \<open>
  C8: resolving the canonical name returned for \<open>x\<close> yields the same name
  again. The table read \<open>INGREDIENT_ALIASES[normalized]\<close> also finds what the
  object inherits; for the input \<open>constructor\<close> the returned \<open>canonicalName\<close> is
  the function \<open>Object\<close>, not a string, and resolving it again throws a
  \<open>TypeError\<close> instead of returning a name.
\<close>

theorem canonicalizeIngredient_not_idempotent:
  "canonicalizeIngredient ''constructor'' = (ProtoMember ''constructor'', 95 / 100)
   \<and> canonicalizeIngredientValue (fst (canonicalizeIngredient ''constructor'')) = Inl TypeError"
  by (simp add: constructor_resolves canonicalizeIngredientValue_def)

text \<open>For every other input the returned name is a string that resolves to
  itself.\<close>

lemma canonicalizeIngredient_idempotent_on_names:
  assumes "normalizeToken x \<noteq> ''constructor''"
  shows "\<exists>s. fst (canonicalizeIngredient x) = Val s
           \<and> canonicalizeIngredientValue (Val s) = Inr (canonicalizeIngredient s)
           \<and> fst (canonicalizeIngredient s) = Val s"
proof (cases "normalizeToken x = []")
  case True
  then have "canonicalizeIngredient x = (Val ''unknown'', 0)"
    by (simp add: canonicalizeIngredient_def)
  then show ?thesis
    by (simp add: canonicalizeIngredientValue_def unknown_resolves)
next
  case False
  define n where "n = normalizeToken x"
  have n: "normalizeToken x = n" "n \<noteq> []" using False by (simp_all add: n_def)
  from canonicalizeIngredient_result[OF n] assms n(1)
  consider
      (known) b where "b \<in> set vocabulary" "fst (canonicalizeIngredient x) = Val b"
    | (own) "canonicalizeIngredient x = (Val n, 1 / 2)"
    by blast
  then show ?thesis
  proof cases
    case known
    then show ?thesis
      by (simp add: canonicalizeIngredientValue_def vocabulary_resolves)
  next
    case own
    have "canonicalizeIngredient n = canonicalizeIngredient x"
      using canonicalizeIngredient_normalized[of x] n(1) by simp
    then show ?thesis using own
      by (simp add: canonicalizeIngredientValue_def)
  qed
qed

section \<open>Deduplication\<close>

lemma map_of_map_set: "map_of (map_set m k v) = (map_of m)(k \<mapsto> v)"
  by (induction m) (auto simp: fun_eq_iff)

lemma keys_map_set: "set (map fst (map_set m k v)) = insert k (set (map fst m))"
proof -
  have "dom (map_of (map_set m k v)) = insert k (dom (map_of m))"
    by (simp add: map_of_map_set)
  then show ?thesis by (simp add: dom_map_of_conv_image_fst)
qed

lemma distinct_map_set: "distinct (map fst m) \<Longrightarrow> distinct (map fst (map_set m k v))"
  by (induction m) (auto simp: keys_map_set simp del: set_map)

lemma mergedItem_single: "mergedItem [p] = p"
  by (simp add: mergedItem_def)

lemma mergedItem_snoc:
  "g \<noteq> [] \<Longrightarrow>
     mergedItem (g @ [p]) =
       (mergedItem g)\<lparr> quantity := quantity (mergedItem g) + quantity p,
                        confidence := max (confidence (mergedItem g)) (confidence p) \<rparr>"
proof -
  assume g: "g \<noteq> []"
  then have "Max (set (map confidence (g @ [p]))) = max (Max (set (map confidence g))) (confidence p)"
    by (simp add: max.commute)
  moreover have "hd (g @ [p]) = hd g" using g by simp
  ultimately show ?thesis
    by (simp add: mergedItem_def)
qed

lemma fold_dedupStep:
  "distinct (map fst (fold dedupStep parsed []))
   \<and> map_of (fold dedupStep parsed []) =
       (\<lambda>k. if keyGroup k parsed = [] then None else Some (mergedItem (keyGroup k parsed)))"
proof (induction parsed rule: rev_induct)
  case Nil
  show ?case by (simp add: keyGroup_def)
next
  case (snoc p parsed)
  define d where "d = fold dedupStep parsed []"
  have dist: "distinct (map fst d)"
    and look: "map_of d = (\<lambda>k. if keyGroup k parsed = [] then None
                                 else Some (mergedItem (keyGroup k parsed)))"
    using snoc.IH by (simp_all add: d_def)
  have step: "fold dedupStep (parsed @ [p]) [] = dedupStep p d"
    by (simp add: d_def)
  have grp: "keyGroup k (parsed @ [p]) = (if itemKey p = k then keyGroup k parsed @ [p] else keyGroup k parsed)" for k
    by (simp add: keyGroup_def)
  show ?case
  proof (cases "keyGroup (itemKey p) parsed = []")
    case True
    then have "dedupStep p d = map_set d (itemKey p) p"
      by (simp add: dedupStep_def look)
    then show ?thesis
      unfolding step using dist True
      by (auto simp: distinct_map_set map_of_map_set look grp fun_eq_iff mergedItem_single)
  next
    case False
    then have "dedupStep p d =
                 map_set d (itemKey p) (mergedItem (keyGroup (itemKey p) parsed @ [p]))"
      by (simp add: dedupStep_def look mergedItem_snoc Let_def)
    then show ?thesis
      unfolding step using dist False
      by (auto simp: distinct_map_set map_of_map_set look grp fun_eq_iff)
  qed
qed

lemma itemKey_mergedItem: "g \<noteq> [] \<Longrightarrow> itemKey (mergedItem g) = itemKey (hd g)"
  by (simp add: mergedItem_def itemKey_def)

lemma hd_keyGroup: "keyGroup k parsed \<noteq> [] \<Longrightarrow> itemKey (hd (keyGroup k parsed)) = k"
proof -
  assume "keyGroup k parsed \<noteq> []"
  then have "hd (keyGroup k parsed) \<in> set (keyGroup k parsed)" by simp
  then show ?thesis by (simp add: keyGroup_def)
qed

lemma dedupe_entries:
  assumes "(k, v) \<in> set (fold dedupStep parsed [])"
  shows "keyGroup k parsed \<noteq> [] \<and> v = mergedItem (keyGroup k parsed) \<and> itemKey v = k"
proof -
  have "distinct (map fst (fold dedupStep parsed []))"
    using fold_dedupStep[of parsed] by blast
  then have "map_of (fold dedupStep parsed []) k = Some v"
    using assms by simp
  moreover have "map_of (fold dedupStep parsed []) k
                   = (if keyGroup k parsed = [] then None else Some (mergedItem (keyGroup k parsed)))"
    using fold_dedupStep[of parsed] by simp
  ultimately have "keyGroup k parsed \<noteq> []" "v = mergedItem (keyGroup k parsed)"
    by (simp_all split: if_splits)
  then show ?thesis
    by (simp add: itemKey_mergedItem hd_keyGroup)
qed

lemma dedupe_keys:
  "map itemKey (dedupe parsed) = map fst (fold dedupStep parsed [])"
  unfolding dedupe_def using dedupe_entries[of _ _ parsed] by (auto simp: map_eq_conv)

lemma dedupe_distinct_keys: "distinct (map itemKey (dedupe parsed))"
  using fold_dedupStep[of parsed] by (simp add: dedupe_keys)

lemma dedupe_keys_set: "set (map itemKey (dedupe parsed)) = set (map itemKey parsed)"
proof -
  have "dom (map_of (fold dedupStep parsed [])) = {k. keyGroup k parsed \<noteq> []}"
    using fold_dedupStep[of parsed] by (simp add: dom_def)
  then have "set (map fst (fold dedupStep parsed [])) = {k. keyGroup k parsed \<noteq> []}"
    by (simp add: dom_map_of_conv_image_fst)
  also have "\<dots> = set (map itemKey parsed)"
    by (auto simp: keyGroup_def filter_empty_conv)
  finally show ?thesis by (simp add: dedupe_keys)
qed

lemma dedupe_member:
  assumes "v \<in> set (dedupe parsed)"
  shows "keyGroup (itemKey v) parsed \<noteq> [] \<and> v = mergedItem (keyGroup (itemKey v) parsed)"
proof -
  from assms obtain k where "(k, v) \<in> set (fold dedupStep parsed [])"
    by (auto simp: dedupe_def)
  from dedupe_entries[OF this]
  have a: "keyGroup k parsed \<noteq> []" and b: "v = mergedItem (keyGroup k parsed)"
    and c: "itemKey v = k" by blast+
  show ?thesis unfolding c using a b by (rule conjI)
qed

lemma canonicalizeIngredient_resolvedName: "resolvedName (fst (canonicalizeIngredient raw))"
proof (cases "normalizeToken raw = []")
  case True
  then show ?thesis
    by (simp add: canonicalizeIngredient_def resolvedName_def lowerAZ_def)
next
  case False
  have "set (normalizeToken raw) \<subseteq> set lowerAZ" by (rule normalizeToken_letters)
  then show ?thesis
    using canonicalizeIngredient_result[OF refl False] vocabulary_letters
    unfolding resolvedName_def by (metis fst_conv)
qed

lemma parseLine_resolvedName: "parseLine line = Some p \<Longrightarrow> resolvedName (canonicalName p)"
  using canonicalizeIngredient_resolvedName[of "cleanLine line"]
  by (auto simp: parseLine_def Let_def split: if_splits prod.splits)

lemma parseLines_fold:
  "fold (\<lambda>line parsed. case parseLine line of None \<Rightarrow> parsed | Some item \<Rightarrow> parsed @ [item]) lines acc
     = acc @ List.map_filter parseLine lines"
  by (induction lines arbitrary: acc) (auto simp: List.map_filter_simps split: option.splits)

lemma parseLines_member: "p \<in> set (parseLines lines) \<Longrightarrow> \<exists>line. parseLine line = Some p"
  by (auto simp: parseLines_def parseLines_fold List.map_filter_def)

lemma parseLines_resolvedName: "p \<in> set (parseLines lines) \<Longrightarrow> resolvedName (canonicalName p)"
  using parseLines_member parseLine_resolvedName by blast

lemma toStringVal_no_colon: "resolvedName v \<Longrightarrow> CHR '':'' \<notin> set (toStringVal v)"
  by (auto simp: resolvedName_def toStringVal_def lowerAZ_def)

lemma toStringVal_inj:
  "resolvedName v \<Longrightarrow> resolvedName w \<Longrightarrow> toStringVal v = toStringVal w \<Longrightarrow> v = w"
  by (auto simp: resolvedName_def toStringVal_def lowerAZ_def)

lemma append_separator_inj:
  "c \<notin> set a \<Longrightarrow> c \<notin> set b \<Longrightarrow> a @ c # u = b @ c # v \<Longrightarrow> a = b \<and> u = v"
proof (induction a arbitrary: b)
  case Nil
  then show ?case by (cases b) auto
next
  case (Cons x a)
  then show ?case by (cases b) auto
qed

lemma itemKey_pair:
  assumes "resolvedName (canonicalName p)" "resolvedName (canonicalName q)"
  shows "itemKey p = itemKey q \<longleftrightarrow> samePair p q"
proof
  assume "itemKey p = itemKey q"
  then have "toStringVal (canonicalName p) @ CHR '':'' # unit p
               = toStringVal (canonicalName q) @ CHR '':'' # unit q"
    by (simp add: itemKey_def)
  from append_separator_inj[OF toStringVal_no_colon[OF assms(1)] toStringVal_no_colon[OF assms(2)] this]
  show "samePair p q"
    using toStringVal_inj[OF assms] by (simp add: samePair_def)
next
  assume "samePair p q"
  then show "itemKey p = itemKey q" by (simp add: samePair_def itemKey_def)
qed

lemma mergedItem_name: "canonicalName (mergedItem g) = canonicalName (hd g)"
  by (simp add: mergedItem_def)

lemma distinct_map_comp: "distinct (map (\<lambda>x. g (h x)) xs) \<Longrightarrow> distinct (map h xs)"
  by (induction xs) auto

text \<open>
  C9. For every input text, the list returned by \<open>parseReceiptText\<close> has no
  two items with the same (canonical name, unit) pair, and no two with the
  same key. Each returned item stands for the parsed lines with its pair,
  of which there is at least one: it is the first of them, with \<open>rawLine\<close>,
  \<open>displayName\<close>, name and unit unchanged, its quantity the sum of their
  quantities and its confidence the largest of their confidences. Every
  parsed line is covered by a returned item with its pair.
\<close>

theorem parseReceiptText_deduplicated:
  "distinct (map pairOf (parseReceiptText rawText))
   \<and> distinct (map itemKey (parseReceiptText rawText))
   \<and> (\<forall>item \<in> set (parseReceiptText rawText).
         filter (samePair item) (parseLines (receiptLines rawText)) \<noteq> []
         \<and> item = mergedItem (filter (samePair item) (parseLines (receiptLines rawText))))
   \<and> (\<forall>p \<in> set (parseLines (receiptLines rawText)).
         \<exists>item \<in> set (parseReceiptText rawText). samePair item p)"
proof -
  define parsed where "parsed = parseLines (receiptLines rawText)"
  have out: "parseReceiptText rawText = dedupe parsed"
    by (simp add: parseReceiptText_def parsed_def)
  have wf: "resolvedName (canonicalName p)" if "p \<in> set parsed" for p
    using that parseLines_resolvedName by (simp add: parsed_def)
  have keys: "distinct (map itemKey (dedupe parsed))"
    by (rule dedupe_distinct_keys)
  have "itemKey = (\<lambda>x. (\<lambda>(n, u). toStringVal n @ '':'' @ u) (pairOf x))"
    by (simp add: fun_eq_iff itemKey_def pairOf_def)
  then have pairs: "distinct (map pairOf (dedupe parsed))"
    using keys distinct_map_comp[of "\<lambda>(n, u). toStringVal n @ '':'' @ u" pairOf "dedupe parsed"]
    by simp
  have member: "filter (samePair item) parsed \<noteq> [] \<and> item = mergedItem (filter (samePair item) parsed)"
    if "item \<in> set (dedupe parsed)" for item
  proof -
    define g where "g = keyGroup (itemKey item) parsed"
    from dedupe_member[OF that] have g: "g \<noteq> []" "item = mergedItem g"
      by (simp_all add: g_def)
    have "hd g \<in> set g" using g(1) by simp
    then have hd: "hd g \<in> set parsed" by (simp add: g_def keyGroup_def)
    have "canonicalName item = canonicalName (hd g)"
      using g(2) by (simp add: mergedItem_def)
    then have wfi: "resolvedName (canonicalName item)"
      using wf[OF hd] by simp
    have "filter (samePair item) parsed = g"
      unfolding g_def keyGroup_def
    proof (rule filter_cong[OF refl])
      fix x assume "x \<in> set parsed"
      from itemKey_pair[OF wfi wf[OF this]]
      show "samePair item x = (itemKey x = itemKey item)" by auto
    qed
    then show ?thesis using g by simp
  qed
  have covered: "\<exists>item \<in> set (dedupe parsed). samePair item p" if "p \<in> set parsed" for p
  proof -
    have "itemKey p \<in> set (map itemKey parsed)"
      using that by simp
    then have "itemKey p \<in> set (map itemKey (dedupe parsed))"
      by (simp only: dedupe_keys_set)
    then obtain item where item: "item \<in> set (dedupe parsed)" "itemKey item = itemKey p"
      by auto
    from member[OF item(1)] have e: "item = mergedItem (filter (samePair item) parsed)"
      and ne: "filter (samePair item) parsed \<noteq> []" by blast+
    from arg_cong[OF e, of canonicalName]
    have "canonicalName item = canonicalName (hd (filter (samePair item) parsed))"
      by (simp only: mergedItem_name)
    moreover have "hd (filter (samePair item) parsed) \<in> set (filter (samePair item) parsed)"
      using ne by (rule hd_in_set)
    then have "hd (filter (samePair item) parsed) \<in> set parsed"
      using filter_is_subset[of "samePair item" parsed] by blast
    ultimately have "resolvedName (canonicalName item)"
      using wf by simp
    then have "samePair item p"
      using itemKey_pair[of item p] wf[OF that] item(2) by simp
    with item(1) show ?thesis by blast
  qed
  show ?thesis
    unfolding out parsed_def[symmetric]
    using pairs keys member covered by blast
qed

theorem parseReceiptText_deduplicated_witness:
  "parseLines (receiptLines receiptSample) = receiptSampleLines
   \<and> bananaEntry \<in> set (parseReceiptText receiptSample)
   \<and> bananaEntry = mergedItem (filter (samePair bananaEntry) receiptSampleLines)
   \<and> map quantity (filter (samePair bananaEntry) receiptSampleLines) = [2, 3]
   \<and> map pairOf (parseReceiptText receiptSample)
       = [(Val ''banana'', ''item''), (Val ''milk'', ''item''), (Val ''milk'', ''l'')]"
proof -
  have lines: "parseLines (receiptLines receiptSample) = receiptSampleLines"
    by code_simp
  have out: "parseReceiptText receiptSample = dedupe receiptSampleLines"
    by (simp add: parseReceiptText_def lines)
  have h: "bananaEntry \<in> set (parseReceiptText receiptSample)"
    unfolding out by code_simp
  from parseReceiptText_deduplicated[of receiptSample] h
  have "bananaEntry = mergedItem (filter (samePair bananaEntry) (parseLines (receiptLines receiptSample)))"
    by blast
  then have "bananaEntry = mergedItem (filter (samePair bananaEntry) receiptSampleLines)"
    by (simp only: lines)
  moreover
  have "map quantity (filter (samePair bananaEntry) receiptSampleLines) = [2, 3]"
    by code_simp
  moreover
  have "map pairOf (parseReceiptText receiptSample)
       = [(Val ''banana'', ''item''), (Val ''milk'', ''item''), (Val ''milk'', ''l'')]"
    unfolding out by code_simp
  ultimately show ?thesis using h lines by blast
qed

section \<open>Edit distance\<close>

text \<open>The loops of \<open>levenshteinDistance\<close> fill the matrix with \<open>cellValue\<close>.\<close>

lemma fold_upt_invariant:
  assumes "P lo m0"
      and "\<And>k m. lo \<le> k \<Longrightarrow> k < hi \<Longrightarrow> P k m \<Longrightarrow> P (Suc k) (f k m)"
      and "lo \<le> hi"
  shows "P hi (fold f [lo..<hi] m0)"
  using assms(3,2)
proof (induction hi)
  case 0
  then show ?case using assms(1) by simp
next
  case (Suc hi)
  show ?case
  proof (cases "lo = Suc hi")
    case True
    then show ?thesis using assms(1) by simp
  next
    case False
    then have le: "lo \<le> hi" using Suc.prems(1) by simp
    have "P hi (fold f [lo..<hi] m0)"
      using Suc.IH[OF le] Suc.prems(2) by simp
    then have "P (Suc hi) (f hi (fold f [lo..<hi] m0))"
      using Suc.prems(2)[of hi] le by simp
    then show ?thesis using le by simp
  qed
qed

lemma setCell_shape:
  "matrixShape rows cols m \<Longrightarrow> matrixShape rows cols (setCell m r c v)"
  by (cases "r < length m") (auto simp: matrixShape_def setCell_def nth_list_update)

lemma setCell_nth:
  "r < length m \<Longrightarrow> c < length (m ! r) \<Longrightarrow>
     setCell m r c v ! i ! j = (if i = r \<and> j = c then v else m ! i ! j)"
  by (auto simp: setCell_def nth_list_update)

lemma setCell_nth_shape:
  "matrixShape rows cols m \<Longrightarrow> r < rows \<Longrightarrow> c < cols \<Longrightarrow>
     setCell m r c v ! i ! j = (if i = r \<and> j = c then v else m ! i ! j)"
  by (rule setCell_nth) (simp_all add: matrixShape_def)

lemma cellValue_first_column: "cellValue a b i 0 = i"
  by (cases i) simp_all

lemma first_column_loop:
  assumes "matrixShape rows (Suc cols) m0"
  shows "matrixShape rows (Suc cols) (fold (\<lambda>row m. setCell m row 0 row) [0..<rows] m0)
         \<and> (\<forall>i<rows. fold (\<lambda>row m. setCell m row 0 row) [0..<rows] m0 ! i ! 0 = i)"
proof -
  let ?P = "\<lambda>k m. matrixShape rows (Suc cols) m \<and> (\<forall>i<k. m ! i ! 0 = i)"
  have "?P rows (fold (\<lambda>row m. setCell m row 0 row) [0..<rows] m0)"
  proof (rule fold_upt_invariant[where P = ?P])
    show "?P 0 m0" using assms by simp
  next
    fix k m assume k: "0 \<le> k" "k < rows" and p: "?P k m"
    from p have sh: "matrixShape rows (Suc cols) m" by simp
    have "0 < Suc cols" by simp
    note upd = setCell_nth_shape[OF sh k(2) this]
    show "?P (Suc k) (setCell m k 0 k)"
      using p by (auto simp: setCell_shape upd less_Suc_eq)
  qed simp
  then show ?thesis by simp
qed

lemma first_row_loop:
  assumes "matrixShape (Suc rows) cols m1" "\<forall>i<Suc rows. m1 ! i ! 0 = i" "0 < cols"
  shows "matrixShape (Suc rows) cols (fold (\<lambda>col m. setCell m 0 col col) [0..<cols] m1)
         \<and> (\<forall>i<Suc rows. fold (\<lambda>col m. setCell m 0 col col) [0..<cols] m1 ! i ! 0 = i)
         \<and> (\<forall>j<cols. fold (\<lambda>col m. setCell m 0 col col) [0..<cols] m1 ! 0 ! j = j)"
proof -
  let ?P = "\<lambda>k m. matrixShape (Suc rows) cols m \<and> (\<forall>i<Suc rows. m ! i ! 0 = i) \<and> (\<forall>j<k. m ! 0 ! j = j)"
  have "?P cols (fold (\<lambda>col m. setCell m 0 col col) [0..<cols] m1)"
  proof (rule fold_upt_invariant[where P = ?P])
    show "?P 0 m1" using assms by simp
  next
    fix k m assume k: "0 \<le> k" "k < cols" and p: "?P k m"
    from p have sh: "matrixShape (Suc rows) cols m" by simp
    have "0 < Suc rows" by simp
    note upd = setCell_nth_shape[OF sh this k(2)]
    show "?P (Suc k) (setCell m 0 k k)"
      using p by (auto simp: setCell_shape upd less_Suc_eq)
  qed simp
  then show ?thesis by simp
qed

lemma filledUpTo_cell:
  "filledUpTo a b r c m \<Longrightarrow> i \<le> length a \<Longrightarrow> j \<le> length b \<Longrightarrow>
     i < r \<or> (i = r \<and> j < c) \<or> i = 0 \<or> j = 0 \<Longrightarrow> m ! i ! j = cellValue a b i j"
  unfolding filledUpTo_def by blast

lemma inner_step:
  assumes f: "filledUpTo a b (Suc r) (Suc c) m" and r: "r < length a" and c: "c < length b"
      and v: "v = min (min (m ! (Suc r - 1) ! Suc c + 1) (m ! Suc r ! (Suc c - 1) + 1))
                      (m ! (Suc r - 1) ! (Suc c - 1)
                         + (if a ! (Suc r - 1) = b ! (Suc c - 1) then 0 else 1))"
  shows "filledUpTo a b (Suc r) (Suc (Suc c)) (setCell m (Suc r) (Suc c) v)"
proof -
  have sh: "matrixShape (length a + 1) (length b + 1) m"
    using f by (simp add: filledUpTo_def)
  have v': "v = cellValue a b (Suc r) (Suc c)"
    unfolding v
    using filledUpTo_cell[OF f, of r "Suc c"] filledUpTo_cell[OF f, of "Suc r" c]
          filledUpTo_cell[OF f, of r c] r c
    by simp
  have upd: "setCell m (Suc r) (Suc c) v ! i ! j
               = (if i = Suc r \<and> j = Suc c then v else m ! i ! j)" for i j
    by (rule setCell_nth_shape[OF sh]) (use r c in simp_all)
  show ?thesis
    unfolding filledUpTo_def
  proof (intro conjI allI impI)
    show "matrixShape (length a + 1) (length b + 1) (setCell m (Suc r) (Suc c) v)"
      using sh by (rule setCell_shape)
  next
    fix i j
    assume i: "i \<le> length a" and j: "j \<le> length b"
       and pos: "i < Suc r \<or> i = Suc r \<and> j < Suc (Suc c) \<or> i = 0 \<or> j = 0"
    show "setCell m (Suc r) (Suc c) v ! i ! j = cellValue a b i j"
    proof (cases "i = Suc r \<and> j = Suc c")
      case True
      have "setCell m (Suc r) (Suc c) v ! i ! j = v"
        unfolding upd[of i j] by (rule if_P[OF True])
      also have "v = cellValue a b i j" using v' True by simp
      finally show ?thesis .
    next
      case False
      then have "i < Suc r \<or> i = Suc r \<and> j < Suc c \<or> i = 0 \<or> j = 0"
        using pos by auto
      then have old: "m ! i ! j = cellValue a b i j"
        using filledUpTo_cell[OF f i j] by blast
      have "setCell m (Suc r) (Suc c) v ! i ! j = m ! i ! j"
        unfolding upd[of i j] by (rule if_not_P[OF False])
      then show ?thesis using old by (rule trans)
    qed
  qed
qed

lemma inner_loop:
  assumes f: "filledUpTo a b (Suc r) 1 m" and r: "r < length a"
  shows "filledUpTo a b (Suc r) (length b + 1)
           (fold (\<lambda>col matrix.
                    let cost = (if a ! (Suc r - 1) = b ! (col - 1) then 0 else 1)
                    in setCell matrix (Suc r) col
                         (min (min (matrix ! (Suc r - 1) ! col + 1)
                                   (matrix ! Suc r ! (col - 1) + 1))
                              (matrix ! (Suc r - 1) ! (col - 1) + cost)))
                 [1..<length b + 1] m)"
proof (rule fold_upt_invariant[where P = "\<lambda>c m. filledUpTo a b (Suc r) c m"])
  show "filledUpTo a b (Suc r) 1 m" by (rule f)
next
  fix k m
  assume k: "1 \<le> k" "k < length b + 1" and p: "filledUpTo a b (Suc r) k m"
  obtain c where c: "k = Suc c" using k(1) by (cases k) auto
  with k(2) have "c < length b" by simp
  from inner_step[OF p[unfolded c] r this refl]
  show "filledUpTo a b (Suc r) (Suc k)
          (let cost = (if a ! (Suc r - 1) = b ! (k - 1) then 0 else 1)
           in setCell m (Suc r) k
                (min (min (m ! (Suc r - 1) ! k + 1) (m ! Suc r ! (k - 1) + 1))
                     (m ! (Suc r - 1) ! (k - 1) + cost)))"
    by (simp add: c Let_def)
qed simp

lemma next_row:
  assumes f: "filledUpTo a b r (length b + 1) m"
  shows "filledUpTo a b (Suc r) 1 m"
  unfolding filledUpTo_def
proof (intro conjI allI impI)
  show "matrixShape (length a + 1) (length b + 1) m"
    using f by (simp add: filledUpTo_def)
next
  fix i j
  assume i: "i \<le> length a" and j: "j \<le> length b"
     and "i < Suc r \<or> i = Suc r \<and> j < 1 \<or> i = 0 \<or> j = 0"
  then have "i < r \<or> i = r \<and> j < length b + 1 \<or> i = 0 \<or> j = 0"
    by auto
  then show "m ! i ! j = cellValue a b i j"
    by (rule filledUpTo_cell[OF f i j])
qed

lemma outer_loop:
  assumes f: "filledUpTo a b 1 1 m"
  shows "filledUpTo a b (length a + 1) 1
           (fold (\<lambda>row matrix.
                    fold (\<lambda>col matrix.
                            let cost = (if a ! (row - 1) = b ! (col - 1) then 0 else 1)
                            in setCell matrix row col
                                 (min (min (matrix ! (row - 1) ! col + 1)
                                           (matrix ! row ! (col - 1) + 1))
                                      (matrix ! (row - 1) ! (col - 1) + cost)))
                         [1..<length b + 1] matrix)
                 [1..<length a + 1] m)"
proof (rule fold_upt_invariant[where P = "\<lambda>r m. filledUpTo a b r 1 m"])
  show "filledUpTo a b 1 1 m" by (rule f)
next
  fix k m
  assume k: "1 \<le> k" "k < length a + 1" and p: "filledUpTo a b k 1 m"
  obtain r where r: "k = Suc r" using k(1) by (cases k) auto
  with k(2) have "r < length a" by simp
  from next_row[OF inner_loop[OF p[unfolded r] this]]
  show "filledUpTo a b (Suc k) 1
          (fold (\<lambda>col matrix.
                   let cost = (if a ! (k - 1) = b ! (col - 1) then 0 else 1)
                   in setCell matrix k col
                        (min (min (matrix ! (k - 1) ! col + 1) (matrix ! k ! (col - 1) + 1))
                             (matrix ! (k - 1) ! (col - 1) + cost)))
                [1..<length b + 1] m)"
    by (simp add: r)
qed simp

lemma levenshteinDistance_cellValue:
  "levenshteinDistance a b = cellValue a b (length a) (length b)"
proof -
  define rows where "rows = length a + 1"
  define cols where "cols = length b + 1"
  define m0 :: "nat list list" where "m0 = replicate rows (replicate cols 0)"
  define m1 where "m1 = fold (\<lambda>row m. setCell m row 0 row) [0..<rows] m0"
  define m2 where "m2 = fold (\<lambda>col m. setCell m 0 col col) [0..<cols] m1"
  have s0: "matrixShape rows (Suc (length b)) m0"
    by (simp add: matrixShape_def m0_def cols_def)
  from first_column_loop[OF s0]
  have s1: "matrixShape (Suc (length a)) cols m1" and c1: "\<forall>i<Suc (length a). m1 ! i ! 0 = i"
    by (simp_all add: m1_def rows_def cols_def)
  have "0 < cols" by (simp add: cols_def)
  from first_row_loop[OF s1 c1 this]
  have s2: "matrixShape (length a + 1) (length b + 1) m2"
    and c2: "\<forall>i<Suc (length a). m2 ! i ! 0 = i"
    and r2: "\<forall>j<cols. m2 ! 0 ! j = j"
    by (simp_all add: m2_def cols_def)
  have f2: "filledUpTo a b 1 1 m2"
    unfolding filledUpTo_def
  proof (intro conjI allI impI)
    show "matrixShape (length a + 1) (length b + 1) m2" by (rule s2)
  next
    fix i j
    assume "i \<le> length a" "j \<le> length b" "i < 1 \<or> i = 1 \<and> j < 1 \<or> i = 0 \<or> j = 0"
    then consider "i = 0" | "j = 0" by auto
    then show "m2 ! i ! j = cellValue a b i j"
    proof cases
      case 1
      then show ?thesis using r2 \<open>j \<le> length b\<close> by (simp add: cols_def)
    next
      case 2
      then show ?thesis using c2 \<open>i \<le> length a\<close> by (simp add: cellValue_first_column)
    qed
  qed
  from filledUpTo_cell[OF outer_loop[OF f2], of "length a" "length b"]
  show ?thesis
    by (simp add: levenshteinDistance_def Let_def m2_def m1_def m0_def rows_def cols_def)
qed

text \<open>\<open>cellValue\<close> at the last cell is the cost of a script and a lower bound
  of the cost of every script.\<close>

lemma edits_keep_right: "edits xs ys n \<Longrightarrow> edits (xs @ [x]) (ys @ [x]) n"
proof (induction rule: edits.induct)
  case finish
  show ?case using edits.keep[OF edits.finish, of x] by simp
qed (auto intro: edits.intros)

lemma edits_substitute_right: "edits xs ys n \<Longrightarrow> edits (xs @ [x]) (ys @ [y]) (Suc n)"
proof (induction rule: edits.induct)
  case finish
  show ?case using edits.substitute[OF edits.finish, of x y] by simp
qed (auto intro: edits.intros)

lemma edits_delete_right: "edits xs ys n \<Longrightarrow> edits (xs @ [x]) ys (Suc n)"
proof (induction rule: edits.induct)
  case finish
  show ?case using edits.delete[OF edits.finish, of x] by simp
qed (auto intro: edits.intros)

lemma edits_insert_right: "edits xs ys n \<Longrightarrow> edits xs (ys @ [y]) (Suc n)"
proof (induction rule: edits.induct)
  case finish
  show ?case using edits.insert[OF edits.finish, of y] by simp
qed (auto intro: edits.intros)

lemma right_keep_left: "editsFromRight xs ys n \<Longrightarrow> editsFromRight (x # xs) (x # ys) n"
proof (induction rule: editsFromRight.induct)
  case finishR
  show ?case using editsFromRight.keepR[OF editsFromRight.finishR, of x] by simp
next
  case (keepR xs ys n z)
  show ?case using editsFromRight.keepR[OF keepR.IH, of z] by simp
next
  case (substituteR xs ys n z y)
  show ?case using editsFromRight.substituteR[OF substituteR.IH, of z y] by simp
next
  case (deleteR xs ys n z)
  show ?case using editsFromRight.deleteR[OF deleteR.IH, of z] by simp
next
  case (insertR xs ys n y)
  show ?case using editsFromRight.insertR[OF insertR.IH, of y] by simp
qed

lemma right_substitute_left:
  "editsFromRight xs ys n \<Longrightarrow> editsFromRight (x # xs) (w # ys) (Suc n)"
proof (induction rule: editsFromRight.induct)
  case finishR
  show ?case using editsFromRight.substituteR[OF editsFromRight.finishR, of x w] by simp
next
  case (keepR xs ys n z)
  show ?case using editsFromRight.keepR[OF keepR.IH, of z] by simp
next
  case (substituteR xs ys n z y)
  show ?case using editsFromRight.substituteR[OF substituteR.IH, of z y] by simp
next
  case (deleteR xs ys n z)
  show ?case using editsFromRight.deleteR[OF deleteR.IH, of z] by simp
next
  case (insertR xs ys n y)
  show ?case using editsFromRight.insertR[OF insertR.IH, of y] by simp
qed

lemma right_delete_left: "editsFromRight xs ys n \<Longrightarrow> editsFromRight (x # xs) ys (Suc n)"
proof (induction rule: editsFromRight.induct)
  case finishR
  show ?case using editsFromRight.deleteR[OF editsFromRight.finishR, of x] by simp
next
  case (keepR xs ys n z)
  show ?case using editsFromRight.keepR[OF keepR.IH, of z] by simp
next
  case (substituteR xs ys n z y)
  show ?case using editsFromRight.substituteR[OF substituteR.IH, of z y] by simp
next
  case (deleteR xs ys n z)
  show ?case using editsFromRight.deleteR[OF deleteR.IH, of z] by simp
next
  case (insertR xs ys n y)
  show ?case using editsFromRight.insertR[OF insertR.IH, of y] by simp
qed

lemma right_insert_left: "editsFromRight xs ys n \<Longrightarrow> editsFromRight xs (w # ys) (Suc n)"
proof (induction rule: editsFromRight.induct)
  case finishR
  show ?case using editsFromRight.insertR[OF editsFromRight.finishR, of w] by simp
next
  case (keepR xs ys n z)
  show ?case using editsFromRight.keepR[OF keepR.IH, of z] by simp
next
  case (substituteR xs ys n z y)
  show ?case using editsFromRight.substituteR[OF substituteR.IH, of z y] by simp
next
  case (deleteR xs ys n z)
  show ?case using editsFromRight.deleteR[OF deleteR.IH, of z] by simp
next
  case (insertR xs ys n y)
  show ?case using editsFromRight.insertR[OF insertR.IH, of y] by simp
qed

lemma edits_from_right: "edits xs ys n \<Longrightarrow> editsFromRight xs ys n"
  by (induction rule: edits.induct)
     (auto intro: editsFromRight.finishR right_keep_left right_substitute_left
                  right_delete_left right_insert_left)

lemma edits_insert_all: "edits [] ys (length ys)"
  by (induction ys) (auto intro: edits.intros)

lemma edits_delete_all: "edits xs [] (length xs)"
  by (induction xs) (auto intro: edits.intros)

lemma cellValue_script:
  "i \<le> length a \<Longrightarrow> j \<le> length b \<Longrightarrow> edits (take i a) (take j b) (cellValue a b i j)"
proof (induction a b i j rule: cellValue.induct)
  case (1 a b j)
  then show ?case using edits_insert_all[of "take j b"] by simp
next
  case (2 a b i)
  then show ?case using edits_delete_all[of "take (Suc i) a"] by simp
next
  case (3 a b i j)
  have i: "i < length a" and j: "j < length b" using 3 by simp_all
  have ta: "take (Suc i) a = take i a @ [a ! i]" using i by (simp add: take_Suc_conv_app_nth)
  have tb: "take (Suc j) b = take j b @ [b ! j]" using j by (simp add: take_Suc_conv_app_nth)
  have del: "edits (take (Suc i) a) (take (Suc j) b) (cellValue a b i (Suc j) + 1)"
    using edits_delete_right[OF "3.IH"(1), of "a ! i"] 3 ta by simp
  have ins: "edits (take (Suc i) a) (take (Suc j) b) (cellValue a b (Suc i) j + 1)"
    using edits_insert_right[OF "3.IH"(2), of "b ! j"] 3 tb by simp
  have sub: "edits (take (Suc i) a) (take (Suc j) b)
               (cellValue a b i j + (if a ! i = b ! j then 0 else 1))"
  proof (cases "a ! i = b ! j")
    case True
    then show ?thesis
      using edits_keep_right[OF "3.IH"(3), of "a ! i"] 3 ta tb by simp
  next
    case False
    then show ?thesis
      using edits_substitute_right[OF "3.IH"(3), of "a ! i" "b ! j"] 3 ta tb by simp
  qed
  show ?case
    using del ins sub unfolding cellValue.simps min_def by presburger
qed

lemma cellValue_append:
  "i \<le> length xs \<Longrightarrow> j \<le> length ys \<Longrightarrow>
     cellValue (xs @ us) (ys @ vs) i j = cellValue xs ys i j"
  by (induction xs ys i j rule: cellValue.induct) (simp_all add: nth_append)

lemma cellValue_first_row: "cellValue a b 0 j = j"
  by simp

lemma script_lower_bound:
  "editsFromRight xs ys n \<Longrightarrow> cellValue xs ys (length xs) (length ys) \<le> n"
proof (induction rule: editsFromRight.induct)
  case finishR
  show ?case by simp
next
  case (keepR xs ys n x)
  have "cellValue (xs @ [x]) (ys @ [x]) (length xs) (length ys) = cellValue xs ys (length xs) (length ys)"
    by (rule cellValue_append) simp_all
  then show ?case using keepR.IH by (simp add: min.coboundedI2)
next
  case (substituteR xs ys n x y)
  have "cellValue (xs @ [x]) (ys @ [y]) (length xs) (length ys) = cellValue xs ys (length xs) (length ys)"
    by (rule cellValue_append) simp_all
  then show ?case using substituteR.IH by (simp add: min.coboundedI2)
next
  case (deleteR xs ys n x)
  show ?case
  proof (cases ys rule: rev_cases)
    case Nil
    then show ?thesis using deleteR.IH by (simp add: cellValue_first_column)
  next
    case (snoc ys' y)
    have "cellValue (xs @ [x]) (ys' @ [y]) (length xs) (Suc (length ys'))
            = cellValue xs (ys' @ [y]) (length xs) (Suc (length ys'))"
      using cellValue_append[of "length xs" xs "Suc (length ys')" "ys' @ [y]" "[x]" "[]"] by simp
    then show ?thesis using deleteR.IH snoc
      by (simp add: min.coboundedI1)
  qed
next
  case (insertR xs ys n y)
  show ?case
  proof (cases xs rule: rev_cases)
    case Nil
    then show ?thesis using insertR.IH by simp
  next
    case (snoc xs' x)
    have "cellValue (xs' @ [x]) (ys @ [y]) (Suc (length xs')) (length ys)
            = cellValue (xs' @ [x]) ys (Suc (length xs')) (length ys)"
      using cellValue_append[of "Suc (length xs')" "xs' @ [x]" "length ys" ys "[]" "[y]"] by simp
    then show ?thesis using insertR.IH snoc
      by (simp add: min.coboundedI1 min.coboundedI2)
  qed
qed

theorem levenshteinDistance_editDistance:
  "editDistance a b (levenshteinDistance a b)"
  unfolding editDistance_def levenshteinDistance_cellValue
  using cellValue_script[of "length a" a "length b" b]
        script_lower_bound[OF edits_from_right, of a b]
  by simp

lemma editDistance_unique: "editDistance a b d \<Longrightarrow> d = levenshteinDistance a b"
  using levenshteinDistance_editDistance[of a b]
  unfolding editDistance_def by (meson le_antisym)

text \<open>When the alias read finds nothing: the name is no key of the table and
  no name that \<open>Object.prototype\<close> defines; for a normalised name the latter
  means that it is not \<open>constructor\<close>.\<close>

lemma alias_miss_iff:
  "getProp INGREDIENT_ALIASES n = None
     \<longleftrightarrow> n \<notin> set (map fst INGREDIENT_ALIASES) \<and> n \<notin> set objectPrototypeNames"
proof (cases "map_of INGREDIENT_ALIASES n")
  case None
  then have "n \<notin> set (map fst INGREDIENT_ALIASES)"
    by (simp add: map_of_eq_None_iff)
  then show ?thesis unfolding getProp_def None by simp
next
  case (Some a)
  then have "n \<in> set (map fst INGREDIENT_ALIASES)"
    using map_of_eq_None_iff[of INGREDIENT_ALIASES n] by simp
  then show ?thesis unfolding getProp_def Some by simp
qed

lemma alias_miss_normalized:
  "getProp INGREDIENT_ALIASES (normalizeToken raw) = None
     \<longleftrightarrow> normalizeToken raw \<notin> set (map fst INGREDIENT_ALIASES)
         \<and> normalizeToken raw \<noteq> ''constructor''"
proof -
  have "normalizeToken raw \<in> set objectPrototypeNames \<longleftrightarrow> normalizeToken raw = ''constructor''"
    using inherited_letters_name[OF _ normalizeToken_letters, of raw]
    by (auto simp: objectPrototypeNames_def)
  then show ?thesis by (simp only: alias_miss_iff)
qed

text \<open>
  C3: for every raw string whose normalisation is not empty, is no alias key
  and is no vocabulary entry, \<open>canonicalizeIngredient\<close> returns the result of
  the fuzzy match. The input \<open>constructor\<close> is its own normalisation, is no key
  of the alias table and no vocabulary entry, and the fuzzy match on it gives
  the input itself at confidence 0.5. But the read
  \<open>INGREDIENT_ALIASES[normalized]\<close> also finds what the object inherits, here
  the function \<open>Object\<close>, which is truthy: the code returns that function as
  the canonical name, at confidence 0.95, and never reaches the fuzzy match.
\<close>

theorem canonicalizeIngredient_fuzzy_inherited_name:
  "normalizeToken ''constructor'' = ''constructor''
   \<and> ''constructor'' \<notin> set (map fst INGREDIENT_ALIASES)
   \<and> ''constructor'' \<notin> set vocabulary
   \<and> fuzzyFallback ''constructor'' = (Val ''constructor'', 1 / 2)
   \<and> canonicalizeIngredient ''constructor'' = (ProtoMember ''constructor'', 95 / 100)"
proof -
  have "normalizeToken ''constructor'' = ''constructor''" by code_simp
  moreover have "''constructor'' \<notin> set (map fst INGREDIENT_ALIASES)" by code_simp
  moreover have "''constructor'' \<notin> set vocabulary" by code_simp
  moreover have "fuzzyFallback ''constructor'' = (Val ''constructor'', 1 / 2)" by code_simp
  moreover have "canonicalizeIngredient ''constructor'' = (ProtoMember ''constructor'', 95 / 100)"
    by (rule constructor_resolves)
  ultimately show ?thesis by blast
qed

text \<open>
  For every other input the three conditions do select the fuzzy match: when
  the normalisation is not empty, is no alias key, no vocabulary entry and not
  \<open>constructor\<close>, \<open>canonicalizeIngredient\<close> takes the entry of the vocabulary at
  the least edit distance from the normalised input (insertions, deletions
  and substitutions at cost 1 each), the first such entry in the order of the
  vocabulary; with \<open>similarity = 1 - distance / max(len(input), len(entry))\<close> it
  returns that entry with confidence \<open>similarity\<close> rounded to two decimals when
  \<open>similarity \<ge> 0.55\<close>, and otherwise the normalised input itself with
  confidence 0.5.
\<close>

lemma canonicalizeIngredient_fuzzy:
  assumes ne: "normalizeToken raw \<noteq> []"
      and nokey: "normalizeToken raw \<notin> set (map fst INGREDIENT_ALIASES)"
      and vocab: "normalizeToken raw \<notin> set vocabulary"
      and other: "normalizeToken raw \<noteq> ''constructor''"
  shows "\<exists>i d. i < length vocabulary
           \<and> editDistance (normalizeToken raw) (vocabulary ! i) d
           \<and> (\<forall>j<length vocabulary. \<forall>e.
                 editDistance (normalizeToken raw) (vocabulary ! j) e
                   \<longrightarrow> d \<le> e \<and> (j < i \<longrightarrow> d < e))
           \<and> canonicalizeIngredient raw =
               (let similarity = 1 - of_nat d
                       / of_nat (max (length (normalizeToken raw)) (length (vocabulary ! i)))
                in if 55 / 100 \<le> similarity then (Val (vocabulary ! i), toFixed2 similarity)
                   else (Val (normalizeToken raw), 1 / 2))"
proof -
  have miss: "getProp INGREDIENT_ALIASES (normalizeToken raw) = None"
    using nokey other by (simp add: alias_miss_normalized)
  define n where "n = normalizeToken raw"
  have notproto: "n \<notin> set objectPrototypeNames"
    using miss by (auto simp: n_def getProp_def split: option.splits if_splits)
  have "map_of SHELF_LIFE_BY_INGREDIENT n = None"
    using vocab by (simp add: n_def vocabulary_def map_of_eq_None_iff)
  then have "getProp SHELF_LIFE_BY_INGREDIENT n = None"
    using notproto by (simp add: getProp_def)
  then have c: "canonicalizeIngredient raw = fuzzyFallback n"
    using ne miss by (simp add: canonicalizeIngredient_def vocabularyOrFuzzy_def n_def)
  from fuzzyFallback_firstMinimum[of n] ne
  obtain i where i: "firstMinimum (levenshteinDistance n) vocabulary i"
    and f: "fuzzyFallback n =
               (let best = vocabulary ! i;
                    similarity = 1 - of_nat (levenshteinDistance n best)
                                       / of_nat (max (length best) (length n))
                in if 55 / 100 \<le> similarity then (Val best, toFixed2 similarity)
                   else (Val n, 1 / 2))"
    by (auto simp: n_def)
  define d where "d = levenshteinDistance n (vocabulary ! i)"
  have il: "i < length vocabulary" using i by (simp add: firstMinimum_def)
  have ed: "editDistance n (vocabulary ! i) d"
    unfolding d_def by (rule levenshteinDistance_editDistance)
  have others: "d \<le> e \<and> (j < i \<longrightarrow> d < e)"
    if "j < length vocabulary" "editDistance n (vocabulary ! j) e" for j e
  proof -
    have "e = levenshteinDistance n (vocabulary ! j)"
      using that(2) by (rule editDistance_unique)
    then show ?thesis
      using i that(1) by (simp add: firstMinimum_def d_def)
  qed
  have res: "canonicalizeIngredient raw =
               (let similarity = 1 - of_nat d / of_nat (max (length n) (length (vocabulary ! i)))
                in if 55 / 100 \<le> similarity then (Val (vocabulary ! i), toFixed2 similarity)
                   else (Val n, 1 / 2))"
    unfolding c f d_def by (simp add: Let_def max.commute)
  show ?thesis
    unfolding n_def[symmetric]
    using il ed others res by blast
qed

lemma canonicalizeIngredient_fuzzy_example:
  "normalizeToken ''Chese!'' = ''chese''
   \<and> canonicalizeIngredient ''Chese!'' = (Val ''cheese'', 83 / 100)
   \<and> levenshteinDistance ''chese'' ''cheese'' = 1"
proof -
  have "normalizeToken ''Chese!'' = ''chese''" by code_simp
  moreover have "canonicalizeIngredient ''Chese!'' = (Val ''cheese'', 83 / 100)" by code_simp
  moreover have "levenshteinDistance ''chese'' ''cheese'' = 1" by code_simp
  ultimately show ?thesis by blast
qed

end
